theory Spec2Isabelle
  imports Main "HOL-Library.Word"
begin

unbundle bit_operations_syntax

section \<open>C values, streams and diagnostics\<close>

text \<open>
  The compiler is C for x86-64 Linux: \<open>char\<close> is a signed byte, \<open>int\<close> has 32 bits and
  \<open>long\<close> has 64. A byte is an Isabelle \<open>char\<close>; a \<open>long\<close> is a \<open>64 word\<close>, whose
  arithmetic wraps around. The input stream \<open>FILE *in\<close> is the list of bytes still to be
  read (pushed-back bytes in front).
\<close>

type_synonym long = "64 word"

text \<open>\<open>EOF\<close> is \<open>-1\<close>. Stored into a \<open>char\<close> variable it is the byte 0xFF.\<close>

definition EOF_char :: char where
  "EOF_char = CHR 0xFF"

definition EOF_long :: long where
  "EOF_long = - 1"

text \<open>
  Every fatal diagnostic of the translator (\<open>eprintf\<close> followed by \<open>exit(1)\<close>) is a value of
  \<open>error\<close>. \<open>Undefined_shift\<close> is no diagnostic: it marks a shift of an \<open>int\<close> by 32 bits
  or more, which C leaves undefined. \<open>Buffer_overrun\<close> marks an identifier that does not fit
  the \<open>BUFSIZ\<close> bytes of its buffer with its terminating NUL, \<open>Null_case_list\<close> a
  \<open>list_push\<close> through the null pointer, and \<open>Out_of_fuel\<close> belongs to the model alone.
\<close>

datatype error =
    Undefined_escape char
  | Unclosed_char_literal
  | Unexpected_eof_ival
  | Expect_semicolon_declaration
  | Unexpected_eof_vector_size
  | Expect_bracket_after_size
  | Unexpected_eof_expression
  | Unexpected_char_expression char
  | Expect_label_after_goto
  | Expect_semicolon_after_goto
  | Expect_paren_or_semicolon_after_return
  | Expect_rparen_after_return
  | Expect_semicolon_after_return
  | Expect_lparen_after_if
  | Expect_lparen_after_while
  | Expect_rparen_after_condition
  | Case_outside_switch
  | Unexpected_char_case char
  | Unexpected_eof_case
  | Expect_colon_after_case
  | Unexpected_eof_statement
  | Unexpected_char_statement char
  | Expect_rparen_after_function
  | Unexpected_eof_after_declaration
  | Expect_identifier_at_top_level
  | Undefined_shift
  | Buffer_overrun
  | Null_case_list
  | Out_of_fuel

subsection \<open>\<open>ctype.h\<close> in the C locale\<close>

definition isdigit :: "char \<Rightarrow> bool" where
  "isdigit c = (48 \<le> (of_char c :: nat) \<and> (of_char c :: nat) \<le> 57)"

definition isalpha :: "char \<Rightarrow> bool" where
  "isalpha c = ((65 \<le> (of_char c :: nat) \<and> (of_char c :: nat) \<le> 90)
              \<or> (97 \<le> (of_char c :: nat) \<and> (of_char c :: nat) \<le> 122))"

definition isalnum :: "char \<Rightarrow> bool" where
  "isalnum c = (isalpha c \<or> isdigit c)"

definition isspace :: "char \<Rightarrow> bool" where
  "isspace c = ((of_char c :: nat) = 32 \<or> (9 \<le> (of_char c :: nat) \<and> (of_char c :: nat) \<le> 13))"

subsection \<open>\<open>fgetc\<close> and \<open>ungetc\<close>\<close>

fun fgetc :: "string \<Rightarrow> char option \<times> string" where
  "fgetc [] = (None, [])"
| "fgetc (c # cs) = (Some c, cs)"

text \<open>\<open>char c = fgetc(in)\<close>: the result narrowed to a \<open>char\<close>, end of file becoming 0xFF.\<close>

definition fgetc_char :: "string \<Rightarrow> char \<times> string" where
  "fgetc_char s = (case fgetc s of (None, s') \<Rightarrow> (EOF_char, s') | (Some c, s') \<Rightarrow> (c, s'))"

text \<open>\<open>ungetc(c, in)\<close> with a \<open>char c\<close>: the byte 0xFF is promoted to \<open>EOF\<close>, on which
  \<open>ungetc\<close> leaves the stream unchanged.\<close>

definition ungetc :: "char \<Rightarrow> string \<Rightarrow> string" where
  "ungetc c s = (if c = EOF_char then s else c # s)"

subsection \<open>\<open>printf\<close> conversions\<close>

definition digit_char :: "nat \<Rightarrow> char" where
  "digit_char d = ''0123456789'' ! d"

fun dec_nat :: "nat \<Rightarrow> string" where
  "dec_nat n = (if n < 10 then [digit_char n]
                else dec_nat (n div 10) @ [digit_char (n mod 10)])"

declare dec_nat.simps [simp del]

definition dec_int :: "int \<Rightarrow> string" where
  "dec_int i = (if i < 0 then CHR ''-'' # dec_nat (nat (- i)) else dec_nat (nat i))"

text \<open>\<open>%lu\<close> and \<open>%ld\<close> of a \<open>long\<close>, \<open>%d\<close> of an \<open>int\<close>.\<close>

definition fmt_lu :: "long \<Rightarrow> string" where
  "fmt_lu v = dec_nat (unat v)"

definition fmt_ld :: "long \<Rightarrow> string" where
  "fmt_ld v = dec_int (sint v)"

definition fmt_d :: "32 word \<Rightarrow> string" where
  "fmt_d v = dec_int (sint v)"

section \<open>Lexical primitives\<close>

text \<open>
  \<^verbatim>\<open>
  static void whitespace(FILE *in) {
      char c;
      while((c = fgetc(in)) != EOF) {
          if(!isspace(c)) { ungetc(c, in); return; }
      }
  }
  \<close>
  The comparison with \<open>EOF\<close> is made on the \<open>char\<close>, so the byte 0xFF ends the loop as the
  end of the file does, and is consumed.
\<close>

fun whitespace :: "string \<Rightarrow> string" where
  "whitespace [] = []"
| "whitespace (c # cs) =
     (if c = EOF_char then cs
      else if \<not> isspace c then ungetc c cs
      else whitespace cs)"

text \<open>
  \<^verbatim>\<open>
  static long number(FILE *in) {
      int read = 0; char c; long num = 0;
      whitespace(in);
      while((c = fgetc(in)) != EOF) {
          if(!isdigit(c)) { ungetc(c, in); return num; }
          read++; num *= 10; num += (c - '0');
      }
      if(read == 0) return EOF;
      return num;
  }
  \<close>
\<close>

fun number_loop :: "nat \<Rightarrow> long \<Rightarrow> string \<Rightarrow> long \<times> string" where
  "number_loop rd num [] = (if rd = 0 then EOF_long else num, [])"
| "number_loop rd num (c # cs) =
     (if c = EOF_char then (if rd = 0 then EOF_long else num, cs)
      else if \<not> isdigit c then (num, ungetc c cs)
      else number_loop (rd + 1) (num * 10 + of_nat (of_char c - 48)) cs)"

definition number :: "string \<Rightarrow> long \<times> string" where
  "number s = number_loop 0 0 (whitespace s)"

text \<open>
  \<^verbatim>\<open>
  static int identifier(FILE *in, char* buffer, size_t buf_len) {
      int read = 0; char c;
      whitespace(in);
      memset(buffer, 0, buf_len * sizeof(char));
      while((c = fgetc(in)) != EOF) {
          if((read == 0 && !isalpha(c)) || !isalnum(c)) { ungetc(c, in); return read; }
          buffer[read++] = c;
      }
      return read;
  }
  \<close>
  (\<open>identifier\<close> is a keyword of Isabelle, hence \<open>identifier_c\<close>.) The model returns the
  buffer's string; the count \<open>read\<close> is its length. The buffers have \<open>BUFSIZ\<close> bytes (8192
  in glibc); the loop does not check the bound.
\<close>

definition BUFSIZ :: nat where
  "BUFSIZ = 8192"

fun identifier_loop :: "string \<Rightarrow> string \<Rightarrow> string \<times> string" where
  "identifier_loop buf [] = (buf, [])"
| "identifier_loop buf (c # cs) =
     (if c = EOF_char then (buf, cs)
      else if (buf = [] \<and> \<not> isalpha c) \<or> \<not> isalnum c then (buf, ungetc c cs)
      else identifier_loop (buf @ [c]) cs)"

definition identifier_c :: "string \<Rightarrow> error + (string \<times> string)" where
  "identifier_c s =
     (case identifier_loop [] (whitespace s) of
        (buf, s') \<Rightarrow> if length buf < BUFSIZ then Inr (buf, s') else Inl Buffer_overrun)"

text \<open>
  The arguments of the compiler (\<open>struct compiler_args\<close> of \<open>compiler.h\<close>, which is not among
  the sources; its fields are those \<open>main\<close> initialises). \<open>output_file\<close> is \<open>None\<close> for the
  null pointer; \<open>num_input_files\<close> is the length of \<open>input_files\<close>.
\<close>

record compiler_args =
  arg0 :: string
  output_file :: "string option"
  input_files :: "string list"
  do_assembling :: bool
  do_linking :: bool
  word_size :: "32 word"

text \<open>
  \<^verbatim>\<open>
  static long character(struct compiler_args *args, FILE *in) {
      char c = 0; int i; long value = 0;
      for(i = 0; i < args->word_size; i++) {
          if(c != '*' && (c = fgetc(in)) == '\'')
              return value;
          if(c == '*') {
              switch(c = fgetc(in)) {
              case '0': case 'e': c = '\0'; break;
              case '(': case ')': case '*': case '\'': case '"': break;
              case 't': c = '\t'; break;
              case 'n': c = '\n'; break;
              default: eprintf(args->arg0, "undefined escape character ..."); exit(1);
              }
          }
          value |= c << (i * 8);
      }
      if(fgetc(in) != '\'') { eprintf(args->arg0, "unclosed char literal\n"); exit(1); }
      return value;
  }
  \<close>
  \<open>c << (i * 8)\<close> is computed in \<open>int\<close>: the \<open>char\<close> is sign-extended to 32 bits, shifted
  there (two's complement, as GCC defines it), and the result sign-extended to the \<open>long\<close>.
  A shift count of 32 or more is undefined in C.
\<close>

definition escape :: "char \<Rightarrow> char option" where
  "escape c =
     (if c = CHR ''0'' \<or> c = CHR ''e'' then Some (CHR 0x00)
      else if c = CHR ''('' \<or> c = CHR '')'' \<or> c = CHR ''*'' \<or> c = CHR 0x27 \<or> c = CHR 0x22
        then Some c
      else if c = CHR ''t'' then Some (CHR 0x09)
      else if c = CHR ''n'' then Some (CHR 0x0A)
      else None)"

definition shl_char :: "char \<Rightarrow> nat \<Rightarrow> long option" where
  "shl_char c i =
     (if 32 \<le> i * 8 then None
      else Some (scast (push_bit (i * 8) (scast (of_char c :: 8 word) :: 32 word))))"

text \<open>The first argument counts the iterations left, \<open>word_size - i\<close>.\<close>

fun character_loop :: "nat \<Rightarrow> nat \<Rightarrow> char \<Rightarrow> long \<Rightarrow> string \<Rightarrow> error + (long \<times> string)" where
  "character_loop 0 i c v s =
     (case fgetc s of
        (Some q, s') \<Rightarrow> if q \<noteq> CHR 0x27 then Inl Unclosed_char_literal else Inr (v, s')
      | (None, s') \<Rightarrow> Inl Unclosed_char_literal)"
| "character_loop (Suc n) i c v s =
     (case (if c \<noteq> CHR ''*'' then fgetc_char s else (c, s)) of (c1, s1) \<Rightarrow>
        if c \<noteq> CHR ''*'' \<and> c1 = CHR 0x27 then Inr (v, s1)
        else
          (case (if c1 = CHR ''*''
                 then (case fgetc_char s1 of (c2, s2) \<Rightarrow>
                         (case escape c2 of None \<Rightarrow> Inl (Undefined_escape c2)
                                          | Some d \<Rightarrow> Inr (d, s2)))
                 else Inr (c1, s1)) of
             Inl e \<Rightarrow> Inl e
           | Inr (d, s2) \<Rightarrow>
               (case shl_char d i of
                  None \<Rightarrow> Inl Undefined_shift
                | Some w \<Rightarrow> character_loop n (i + 1) d (v OR w) s2)))"

definition character :: "compiler_args \<Rightarrow> string \<Rightarrow> error + (long \<times> string)" where
  "character args s = character_loop (nat (sint (word_size args))) 0 (CHR 0x00) 0 s"

section \<open>The output stream and the translator's state\<close>

text \<open>
  \<open>FILE *out\<close> is the list of the lines written so far: every \<open>fprintf\<close> to it writes
  whole lines, each ended by a newline, and no \<open>%s\<close> argument holds one (they are
  identifiers). The state is the two streams and the counter \<open>static long stmt_id\<close> of
  \<open>statement\<close>, which lives as long as the process.
\<close>

record state =
  inp :: string
  outp :: "string list"
  stmt_id :: long

definition emit :: "string list \<Rightarrow> state \<Rightarrow> state" where
  "emit ls st = st\<lparr>outp := outp st @ ls\<rparr>"

definition andthen :: "error + 'a \<Rightarrow> ('a \<Rightarrow> error + 'b) \<Rightarrow> error + 'b" where
  "andthen m f = (case m of Inl e \<Rightarrow> Inl e | Inr x \<Rightarrow> f x)"

text \<open>
  \<^verbatim>\<open>
  #define ASSERT_CHAR(args, in, expect, message) do { \
      if(fgetc(in) != expect) { eprintf(args->arg0, message); exit(1); }} while(0)
  \<close>
\<close>

definition assert_char :: "char \<Rightarrow> error \<Rightarrow> string \<Rightarrow> error + string" where
  "assert_char expect message s =
     (case fgetc s of
        (Some c, s') \<Rightarrow> if c \<noteq> expect then Inl message else Inr s'
      | (None, s') \<Rightarrow> Inl message)"

datatype asm_register =
  RAX | RBX | RCX | RDX | RDI | RSI | RBP | RSP | R8 | R9 | R10 | R11 | R12 | R13 | R14 | R15

fun strregister :: "asm_register \<Rightarrow> string" where
  "strregister RAX = ''%rax''"
| "strregister RBX = ''%rbx''"
| "strregister RCX = ''%rcx''"
| "strregister RDX = ''%rdx''"
| "strregister RDI = ''%rdi''"
| "strregister RSI = ''%rsi''"
| "strregister RBP = ''%rbp''"
| "strregister RSP = ''%rsp''"
| "strregister R8 = ''%r8''"
| "strregister R9 = ''%r9''"
| "strregister R10 = ''%r10''"
| "strregister R11 = ''%r11''"
| "strregister R12 = ''%r12''"
| "strregister R13 = ''%r13''"
| "strregister R14 = ''%r14''"
| "strregister R15 = ''%r15''"

section \<open>Global and vector declarations\<close>

text \<open>
  \<^verbatim>\<open>
  static void ival(struct compiler_args *args, FILE *in, FILE *out) {
      static char buffer[BUFSIZ]; long value; char c = fgetc(in);
      if(isalpha(c)) {
          ungetc(c, in);
          if(identifier(in, buffer, BUFSIZ) == EOF) { ... exit(1); }
          fprintf(out, "  .long %s\n", buffer);
      }
      else if(c == '\'') {
          if((value = character(args, in)) == EOF) { ... exit(1); }
          fprintf(out, "  .long %lu\n", value);
      }
      else {
          ungetc(c, in);
          if((value = number(in)) == EOF) { ... exit(1); }
          fprintf(out, "  .long %lu\n", value);
      }
  }
  \<close>
  \<open>identifier\<close> returns a count, which is never \<open>EOF\<close>.
\<close>

definition ival :: "compiler_args \<Rightarrow> state \<Rightarrow> error + state" where
  "ival args st =
     (case fgetc_char (inp st) of (c, s1) \<Rightarrow>
        if isalpha c then
          andthen (identifier_c (ungetc c s1)) (\<lambda>(buffer, s2).
            Inr (emit [''  .long '' @ buffer] (st\<lparr>inp := s2\<rparr>)))
        else if c = CHR 0x27 then
          andthen (character args s1) (\<lambda>(v, s2).
            if v = EOF_long then Inl Unexpected_eof_ival
            else Inr (emit [''  .long '' @ fmt_lu v] (st\<lparr>inp := s2\<rparr>)))
        else
          (case number (ungetc c s1) of (v, s2) \<Rightarrow>
            if v = EOF_long then Inl Unexpected_eof_ival
            else Inr (emit [''  .long '' @ fmt_lu v] (st\<lparr>inp := s2\<rparr>))))"

text \<open>No reader makes the input longer; the initializer loop below terminates on that.\<close>

lemma length_whitespace: "length (whitespace s) \<le> length s"
  by (induction s) (auto simp: ungetc_def)

lemma length_number_loop: "length (snd (number_loop r n s)) \<le> length s"
  by (induction s arbitrary: r n) (auto simp: ungetc_def le_SucI)

lemma length_number: "number s = (v, s') \<Longrightarrow> length s' \<le> length s"
  using length_number_loop [of 0 0 "whitespace s"] length_whitespace [of s]
  by (simp add: number_def)

lemma length_identifier_loop: "length (snd (identifier_loop b s)) \<le> length s"
  by (induction s arbitrary: b) (auto simp: ungetc_def le_SucI)

lemma length_identifier: "identifier_c s = Inr (b, s') \<Longrightarrow> length s' \<le> length s"
  using length_identifier_loop [of "[]" "whitespace s"] length_whitespace [of s]
  by (auto simp: identifier_c_def split: prod.splits if_splits)

lemma length_fgetc_char:
  "fgetc_char s = (c, s') \<Longrightarrow> length (ungetc c s') \<le> length s \<and> length s' \<le> length s"
  by (cases s) (auto simp: fgetc_char_def ungetc_def)

lemma length_character_loop:
  "character_loop n i c v s = Inr (w, s') \<Longrightarrow> length s' \<le> length s"
proof (induction n arbitrary: i c v s)
  case 0
  then show ?case by (cases s) (auto split: if_splits)
next
  case (Suc n)
  show ?case
  proof (cases "c \<noteq> CHR ''*''")
    case True
    obtain c1 s1 where g: "fgetc_char s = (c1, s1)" by (cases "fgetc_char s")
    then have l1: "length s1 \<le> length s" using length_fgetc_char by blast
    show ?thesis
    proof (cases "c1 = CHR ''*''")
      case False
      with Suc.prems True g l1 Suc.IH show ?thesis
        by (fastforce split: if_splits option.splits)
    next
      case c1: True
      obtain c2 s2 where g2: "fgetc_char s1 = (c2, s2)" by (cases "fgetc_char s1")
      then have l2: "length s2 \<le> length s1" using length_fgetc_char by blast
      with Suc.prems True g l1 c1 g2 Suc.IH show ?thesis
        by (fastforce split: if_splits option.splits)
    qed
  next
    case False
    obtain c2 s2 where g2: "fgetc_char s = (c2, s2)" by (cases "fgetc_char s")
    then have l2: "length s2 \<le> length s" using length_fgetc_char by blast
    with Suc.prems False g2 Suc.IH show ?thesis
      by (fastforce split: if_splits option.splits)
  qed
qed

lemma length_ival: "ival args st = Inr st' \<Longrightarrow> length (inp st') \<le> length (inp st)"
  apply (cases "fgetc_char (inp st)")
  apply (frule length_fgetc_char)
  apply (auto simp: ival_def andthen_def emit_def character_def
      split: if_splits sum.splits prod.splits
      dest!: length_identifier length_number length_character_loop)
  done

text \<open>
  The initializer list of \<open>global\<close> and \<open>vector\<close>:
  \<^verbatim>\<open>
  do {
      whitespace(in);
      ival(args, in, out);
      whitespace(in);
  } while((c = fgetc(in)) == ',');
  \<close>
  The loop returns the byte \<open>c\<close> that ended it, and the state. The number between them
  counts the iterations made (it is no variable of the source).
\<close>

function ivals :: "compiler_args \<Rightarrow> state \<Rightarrow> error + (char \<times> nat \<times> state)" where
  "ivals args st =
     (case ival args (st\<lparr>inp := whitespace (inp st)\<rparr>) of
        Inl e \<Rightarrow> Inl e
      | Inr st1 \<Rightarrow>
          (case fgetc_char (whitespace (inp st1)) of (c, s2) \<Rightarrow>
             if c = CHR '','' then
               (case ivals args (st1\<lparr>inp := s2\<rparr>) of
                  Inl e \<Rightarrow> Inl e
                | Inr (c', k, st2) \<Rightarrow> Inr (c', Suc k, st2))
             else Inr (c, 1, st1\<lparr>inp := s2\<rparr>)))"
  by pat_completeness auto
termination
proof (relation "measure (\<lambda>(args, st). length (inp st))")
  show "wf (measure (\<lambda>(args, st). length (inp st)))" by simp
next
  fix args :: compiler_args and st st1 :: state and c s2
  assume a: "ival args (st\<lparr>inp := whitespace (inp st)\<rparr>) = Inr st1"
    and b: "(c, s2) = fgetc_char (whitespace (inp st1))" and c: "c = CHR '',''"
  from a have "length (inp st1) \<le> length (whitespace (inp st))"
    using length_ival by fastforce
  moreover from b c have "whitespace (inp st1) = CHR '','' # s2"
    by (cases "whitespace (inp st1)") (auto simp: fgetc_char_def EOF_char_def)
  then have "length s2 < length (inp st1)"
    using length_whitespace [of "inp st1"] by simp
  ultimately show "((args, st1\<lparr>inp := s2\<rparr>), (args, st)) \<in> measure (\<lambda>(args, st). length (inp st))"
    using length_whitespace [of "inp st"] by simp
qed

declare ivals.simps [simp del]

text \<open>
  \<^verbatim>\<open>
  static void global(struct compiler_args *args, FILE *in, FILE *out, char *identifier) {
      fprintf(out, ".data\n" ".type %s, @object\n" ".align %d\n" "%s:\n",
          identifier, args->word_size, identifier);
      char c;
      if((c = fgetc(in)) != ';') {
          ungetc(c, in);
          do { ... } while((c = fgetc(in)) == ',');
          if(c != ';') { eprintf(args->arg0, "expect ; at end of declaration\n"); exit(1); }
      }
      else
          fprintf(out, "  .zero %d\n", args->word_size);
  }
  \<close>
\<close>

definition data_header :: "compiler_args \<Rightarrow> string \<Rightarrow> string list" where
  "data_header args ident =
     [''.data'', ''.type '' @ ident @ '', @object'', ''.align '' @ fmt_d (word_size args),
      ident @ '':'']"


text \<open>
  \<^verbatim>\<open>
  static void vector(struct compiler_args *args, FILE *in, FILE *out, char *identifier) {
      long num = 0; char c;
      whitespace(in);
      if((c = fgetc(in)) != ']') {
          ungetc(c, in);
          num = number(in);
          if(num == EOF) { eprintf(..., "unexpected end of file, expect vector size ..."); exit(1); }
          whitespace(in);
          if(fgetc(in) != ']') { eprintf(..., "expect ] after vector size\n"); exit(1); }
      }
      fprintf(out, ".data\n.type %s, @object\n" ".align %d\n" "%s:\n",
          identifier, args->word_size, identifier);
      whitespace(in);
      if((c = fgetc(in)) != ';') {
          ungetc(c, in);
          do { ... } while((c = fgetc(in)) == ',');
          if(c != ';') { eprintf(args->arg0, "expect ; at end of declaration\n"); exit(1); }
      }
      else if((args->word_size * num) != 0)
          fprintf(out, "  .zero %ld\n", args->word_size * num);
  }
  \<close>
  \<open>vector_size\<close> is the first part, up to the closing bracket: it returns \<open>num\<close> and the
  input that follows. The product \<open>args->word_size * num\<close> is computed in \<open>long\<close>, the
  \<open>int\<close> sign-extended.
\<close>

definition vector_size :: "string \<Rightarrow> error + (long \<times> string)" where
  "vector_size s =
     (case fgetc_char (whitespace s) of (c, s1) \<Rightarrow>
        if c \<noteq> CHR '']'' then
          (case number (ungetc c s1) of (num, s2) \<Rightarrow>
             if num = EOF_long then Inl Unexpected_eof_vector_size
             else andthen (assert_char (CHR '']'') Expect_bracket_after_size (whitespace s2))
                    (\<lambda>s3. Inr (num, s3)))
        else Inr (0, s1))"

definition vector :: "compiler_args \<Rightarrow> string \<Rightarrow> state \<Rightarrow> error + state" where
  "vector args ident st =
     andthen (vector_size (inp st)) (\<lambda>(num, s0).
       let st0 = emit (data_header args ident) (st\<lparr>inp := s0\<rparr>) in
       case fgetc_char (whitespace (inp st0)) of (c, s1) \<Rightarrow>
         if c \<noteq> CHR '';'' then
           andthen (ivals args (st0\<lparr>inp := ungetc c s1\<rparr>)) (\<lambda>(c', k, st1).
             if c' \<noteq> CHR '';'' then Inl Expect_semicolon_declaration else Inr st1)
         else if scast (word_size args) * num \<noteq> 0
           then Inr (emit [''  .zero '' @ fmt_ld (scast (word_size args) * num)] (st0\<lparr>inp := s1\<rparr>))
         else Inr (st0\<lparr>inp := s1\<rparr>))"

section \<open>Expressions and statements\<close>

text \<open>
  \<^verbatim>\<open>
  static void expression(struct compiler_args *args, enum asm_register reg, FILE *in, FILE *out) {
      char c; long value;
      whitespace(in);
      switch(c = fgetc(in)) {
      case '\'':
          if((value = character(args, in)))
              fprintf(out, "  mov $%lu, %s\n", value, strregister(reg));
          else
              fprintf(out, "  xor %s, %s\n", strregister(reg), strregister(reg));
          break;
      case EOF:
          eprintf(args->arg0, "unexpected end of file, expect expression"); exit(1);
      default:
          if(isdigit(c)) {
              ungetc(c, in);
              if((value = number(in))) fprintf(out, "  mov $%lu, %s\n", ...);
              else fprintf(out, "  xor %s, %s\n", ...);
          }
          else { eprintf(..., "unexpected character ..., expect expression\n", c); exit(1); }
      }
  }
  \<close>
\<close>

definition load_value :: "long \<Rightarrow> asm_register \<Rightarrow> string" where
  "load_value v reg =
     (if v \<noteq> 0 then ''  mov $'' @ fmt_lu v @ '', '' @ strregister reg
      else ''  xor '' @ strregister reg @ '', '' @ strregister reg)"

definition expression :: "compiler_args \<Rightarrow> asm_register \<Rightarrow> state \<Rightarrow> error + state" where
  "expression args reg st =
     (case fgetc_char (whitespace (inp st)) of (c, s1) \<Rightarrow>
        if c = CHR 0x27 then
          andthen (character args s1) (\<lambda>(v, s2).
            Inr (emit [load_value v reg] (st\<lparr>inp := s2\<rparr>)))
        else if c = EOF_char then Inl Unexpected_eof_expression
        else if isdigit c then
          (case number (ungetc c s1) of (v, s2) \<Rightarrow>
             Inr (emit [load_value v reg] (st\<lparr>inp := s2\<rparr>)))
        else Inl (Unexpected_char_expression c))"

text \<open>
  The case list of a \<open>switch\<close> is a \<open>struct list\<close> of \<open>list.h\<close>, which is not among the
  sources; \<open>statement\<close> gets a pointer to it, or the null pointer (\<open>None\<close>).
\<close>

type_synonym cases = "long list option"

text \<open>
  Modelled from the spec: \<open>list_push\<close> of \<open>list.h\<close>; the case-value list is "ordered,
  append-only", "built in source order".
\<close>

definition list_push :: "cases \<Rightarrow> long \<Rightarrow> error + cases" where
  "list_push cs v = (case cs of None \<Rightarrow> Inl Null_case_list | Some l \<Rightarrow> Inr (Some (l @ [v])))"

text \<open>
  The parts of \<open>statement\<close> that do not call it again, each after the keyword and the
  white space behind it have been read.
  \<^verbatim>\<open>
  if(strcmp(buffer, "goto") == 0) {
      if(!identifier(in, buffer, BUFSIZ)) { eprintf(..., "expect label name after goto\n"); exit(1); }
      fprintf(out, "  jmp .L.label.%s\n", buffer);
      whitespace(in);
      ASSERT_CHAR(args, in, ';', "expect ; after goto statement\n");
      return;
  }
  \<close>
\<close>

definition stmt_goto :: "cases \<Rightarrow> state \<Rightarrow> error + (state \<times> cases)" where
  "stmt_goto cs st =
     andthen (identifier_c (inp st)) (\<lambda>(buffer, s1).
       if buffer = [] then Inl Expect_label_after_goto
       else andthen (assert_char (CHR '';'') Expect_semicolon_after_goto (whitespace s1)) (\<lambda>s2.
         Inr (emit [''  jmp .L.label.'' @ buffer] (st\<lparr>inp := s2\<rparr>), cs)))"

text \<open>
  \<^verbatim>\<open>
  else if(strcmp(buffer, "return") == 0) {
      if((c = fgetc(in)) != ';') {
          if(c != '(') { eprintf(..., "expect ( or ; after return\n"); exit(1); }
          expression(args, RAX, in, out);
          whitespace(in);
          ASSERT_CHAR(args, in, ')', "expect ) after return statement\n");
          whitespace(in);
          ASSERT_CHAR(args, in, ';', "expect ; after return statement\n");
      }
      fprintf(out, "  jmp .L.return.%s\n", fn_ident);
      return;
  }
  \<close>
\<close>

definition stmt_return :: "compiler_args \<Rightarrow> string \<Rightarrow> cases \<Rightarrow> state \<Rightarrow> error + (state \<times> cases)" where
  "stmt_return args fn_ident cs st =
     (case fgetc_char (inp st) of (c, s1) \<Rightarrow>
        andthen
          (if c \<noteq> CHR '';'' then
             (if c \<noteq> CHR ''('' then Inl Expect_paren_or_semicolon_after_return
              else
                andthen (expression args RAX (st\<lparr>inp := s1\<rparr>)) (\<lambda>st1.
                andthen (assert_char (CHR '')'') Expect_rparen_after_return (whitespace (inp st1))) (\<lambda>s2.
                andthen (assert_char (CHR '';'') Expect_semicolon_after_return (whitespace s2)) (\<lambda>s3.
                  Inr (st1\<lparr>inp := s3\<rparr>)))))
           else Inr (st\<lparr>inp := s1\<rparr>))
          (\<lambda>st2. Inr (emit [''  jmp .L.return.'' @ fn_ident] st2, cs)))"

text \<open>
  \<^verbatim>\<open>
  else if(strcmp(buffer, "if") == 0) {
      id = stmt_id++;
      ASSERT_CHAR(args, in, '(', "expect ( after if\n");
      expression(args, RAX, in, out);
      fprintf(out, "  cmp $0, %%rax\n  je .L.else.%lu\n", id);
      whitespace(in);
      ASSERT_CHAR(args, in, ')', "expect ) after condition\n");
      statement(args, in, out, fn_ident, -1, NULL);
      ...
  \<close>
  \<open>stmt_if_head\<close> is the part before the call of \<open>statement\<close>; it returns \<open>id\<close>
  (\<open>sid\<close> in the model, \<open>id\<close> being the identity function of HOL).
\<close>

definition stmt_if_head :: "compiler_args \<Rightarrow> state \<Rightarrow> error + (long \<times> state)" where
  "stmt_if_head args st =
     (let sid = stmt_id st; st0 = st\<lparr>stmt_id := stmt_id st + 1\<rparr> in
      andthen (assert_char (CHR ''('') Expect_lparen_after_if (inp st0)) (\<lambda>s1.
      andthen (expression args RAX (st0\<lparr>inp := s1\<rparr>)) (\<lambda>st1.
        let st2 = emit [''  cmp $0, %rax'', ''  je .L.else.'' @ fmt_lu sid] st1 in
        andthen (assert_char (CHR '')'') Expect_rparen_after_condition (whitespace (inp st2))) (\<lambda>s2.
          Inr (sid, st2\<lparr>inp := s2\<rparr>)))))"

text \<open>
  \<^verbatim>\<open>
      memset(buffer, 0, 6 * sizeof(char));
      if((buffer[0] = fgetc(in)) == 'e' && (buffer[1] = fgetc(in)) == 'l' &&
         (buffer[2] = fgetc(in)) == 's' && (buffer[3] = fgetc(in)) == 'e' &&
         !isalnum((buffer[4] = fgetc(in)))) {
          statement(args, in, out, fn_ident, -1, NULL);
      }
      else {
          for(i = 4; i >= 0; i--) { if(buffer[i]) ungetc(buffer[i], in); }
      }
  \<close>
  \<open>else_lookahead\<close> tells whether the condition holds and gives the input left: on a match
  the five bytes stay consumed; otherwise the bytes read go back, last one first, but for
  NUL bytes (and 0xFF, which \<open>ungetc\<close> refuses).
\<close>

definition unget_buffer :: "string \<Rightarrow> string \<Rightarrow> string" where
  "unget_buffer buffer s = foldr (\<lambda>b s'. if b \<noteq> CHR 0x00 then ungetc b s' else s') buffer s"

definition else_lookahead :: "string \<Rightarrow> bool \<times> string" where
  "else_lookahead s =
     (case fgetc_char s of (b0, s1) \<Rightarrow>
        if b0 \<noteq> CHR ''e'' then (False, unget_buffer [b0] s1) else
     (case fgetc_char s1 of (b1, s2) \<Rightarrow>
        if b1 \<noteq> CHR ''l'' then (False, unget_buffer [b0, b1] s2) else
     (case fgetc_char s2 of (b2, s3) \<Rightarrow>
        if b2 \<noteq> CHR ''s'' then (False, unget_buffer [b0, b1, b2] s3) else
     (case fgetc_char s3 of (b3, s4) \<Rightarrow>
        if b3 \<noteq> CHR ''e'' then (False, unget_buffer [b0, b1, b2, b3] s4) else
     (case fgetc_char s4 of (b4, s5) \<Rightarrow>
        if isalnum b4 then (False, unget_buffer [b0, b1, b2, b3, b4] s5)
        else (True, s5))))))"

text \<open>
  \<^verbatim>\<open>
  else if(strcmp(buffer, "while") == 0) {
      id = stmt_id++;
      ASSERT_CHAR(args, in, '(', "expect ( after while\n");
      expression(args, RAX, in, out);
      fprintf(out, ".L.start.%lu:\n" "  cmp $0, %%rax\n" "  je .L.end.%lu\n", id, id);
      whitespace(in);
      ASSERT_CHAR(args, in, ')', "expect ) after condition\n");
      statement(args, in, out, fn_ident, -1, NULL);
      fprintf(out, "  jmp .L.start.%lu\n.L.end.%lu:\n", id, id);
      return;
  }
  \<close>
\<close>

definition stmt_while_head :: "compiler_args \<Rightarrow> state \<Rightarrow> error + (long \<times> state)" where
  "stmt_while_head args st =
     (let sid = stmt_id st; st0 = st\<lparr>stmt_id := stmt_id st + 1\<rparr> in
      andthen (assert_char (CHR ''('') Expect_lparen_after_while (inp st0)) (\<lambda>s1.
      andthen (expression args RAX (st0\<lparr>inp := s1\<rparr>)) (\<lambda>st1.
        let st2 = emit [''.L.start.'' @ fmt_lu sid @ '':'', ''  cmp $0, %rax'',
                        ''  je .L.end.'' @ fmt_lu sid] st1 in
        andthen (assert_char (CHR '')'') Expect_rparen_after_condition (whitespace (inp st2))) (\<lambda>s2.
          Inr (sid, st2\<lparr>inp := s2\<rparr>)))))"

text \<open>
  \<^verbatim>\<open>
  else if(strcmp(buffer, "switch") == 0) {
      id = stmt_id++;
      expression(args, RAX, in, out);
      fprintf(out, "  jmp .L.cmp.%ld\n.L.stmts.%ld:\n", id, id);
      memset(&switch_case_list, 0, sizeof(struct list));
      statement(args, in, out, fn_ident, id, &switch_case_list);
      fprintf(out, "  jmp .L.end.%ld\n" ".L.cmp.%ld:\n", id, id);
      for(i = 0; i < (long) switch_case_list.size; i++)
          fprintf(out, "  cmp $%ld, %%rax\n  je .L.case.%lu.%lu\n",
              (unsigned long) switch_case_list.data[i], id,
              (unsigned long) switch_case_list.data[i]);
      fprintf(out, ".L.end.%ld:\n", id);
      list_free(&switch_case_list);
      return;
  }
  \<close>
\<close>

definition stmt_switch_head :: "compiler_args \<Rightarrow> state \<Rightarrow> error + (long \<times> state)" where
  "stmt_switch_head args st =
     (let sid = stmt_id st; st0 = st\<lparr>stmt_id := stmt_id st + 1\<rparr> in
      andthen (expression args RAX st0) (\<lambda>st1.
        Inr (sid, emit [''  jmp .L.cmp.'' @ fmt_ld sid, ''.L.stmts.'' @ fmt_ld sid @ '':''] st1)))"

definition dispatch_entry :: "long \<Rightarrow> long \<Rightarrow> string list" where
  "dispatch_entry sid v =
     [''  cmp $'' @ fmt_ld v @ '', %rax'', ''  je .L.case.'' @ fmt_lu sid @ ''.'' @ fmt_lu v]"

definition switch_tail :: "long \<Rightarrow> long list \<Rightarrow> string list" where
  "switch_tail sid vs =
     [''  jmp .L.end.'' @ fmt_ld sid, ''.L.cmp.'' @ fmt_ld sid @ '':'']
     @ concat (map (dispatch_entry sid) vs)
     @ [''.L.end.'' @ fmt_ld sid @ '':'']"

text \<open>
  \<^verbatim>\<open>
  else if(strcmp(buffer, "case") == 0) {
      id = stmt_id++;
      if(switch_id < 0) { eprintf(..., "unexpected case outside of switch statements\n"); exit(1); }
      switch (c = fgetc(in)) {
      case '\'': value = character(args, in); break;
      default:
          if(isdigit(c)) { ungetc(c, in); value = number(in); break; }
          eprintf(..., "unexpected character ..., expect constant after case\n", c); exit(1);
      }
      if(value == EOF) { eprintf(..., "unexpected end of file, expect constant after case\n"); exit(1); }
      whitespace(in);
      ASSERT_CHAR(args, in, ':', "expect : after case\n");
      list_push(cases, (void*) value);
      fprintf(out, ".L.case.%ld.%ld:\n", switch_id, value);
      statement(args, in, out, fn_ident, switch_id, cases);
      return;
  }
  \<close>
  \<open>stmt_case_head\<close> is the part before the call of \<open>statement\<close>.
\<close>

definition case_label :: "long \<Rightarrow> long \<Rightarrow> string" where
  "case_label switch_id v = ''.L.case.'' @ fmt_ld switch_id @ ''.'' @ fmt_ld v @ '':''"

definition stmt_case_head :: "compiler_args \<Rightarrow> long \<Rightarrow> cases \<Rightarrow> state \<Rightarrow> error + (state \<times> cases)" where
  "stmt_case_head args switch_id cs st =
     (let st0 = st\<lparr>stmt_id := stmt_id st + 1\<rparr> in
      if sint switch_id < 0 then Inl Case_outside_switch
      else
        (case fgetc_char (inp st0) of (c, s1) \<Rightarrow>
           andthen
             (if c = CHR 0x27 then character args s1
              else if isdigit c then Inr (number (ungetc c s1))
              else Inl (Unexpected_char_case c))
             (\<lambda>(v, s2).
                if v = EOF_long then Inl Unexpected_eof_case
                else
                  andthen (assert_char (CHR '':'') Expect_colon_after_case (whitespace s2)) (\<lambda>s3.
                  andthen (list_push cs v) (\<lambda>cs'.
                    Inr (emit [case_label switch_id v] (st0\<lparr>inp := s3\<rparr>), cs'))))))"

text \<open>
  \<^verbatim>\<open>
  static void statement(struct compiler_args *args, FILE *in, FILE *out, char* fn_ident,
                        long switch_id, struct list *cases) {
      ...
      whitespace(in);
      switch (c = fgetc(in)) {
      case '{':
          whitespace(in);
          while((c = fgetc(in)) != '}') {
              ungetc(c, in);
              statement(args, in, out, fn_ident, switch_id, cases);
              whitespace(in);
          }
          break;
      case ';':
          break;
      default:
          if(isalpha(c)) {
              ungetc(c, in);
              identifier(in, buffer, BUFSIZ);
              whitespace(in);
              if(strcmp(buffer, "goto") == 0) { ... }
              else if(strcmp(buffer, "return") == 0) { ... }
              else if(strcmp(buffer, "if") == 0) {
                  ...
                  statement(args, in, out, fn_ident, -1, NULL);
                  fprintf(out, "  jmp .L.end.%lu\n.L.else.%lu:\n", id, id);
                  whitespace(in);
                  ... else ... statement(args, in, out, fn_ident, -1, NULL); ...
                  fprintf(out, ".L.end.%lu:\n", id);
                  return;
              }
              else if(strcmp(buffer, "while") == 0) { ... }
              else if(strcmp(buffer, "switch") == 0) { ... }
              else if(strcmp(buffer, "case") == 0) { ... }
              else {
                  switch(c = fgetc(in)) {
                  case ':':
                      fprintf(out, ".L.label.%s:\n", buffer);
                      statement(args, in, out, fn_ident, switch_id, cases);
                      return;
                  default:
                      eprintf(..., "unexpected character ..., expect expression\n", c); exit(1);
                  }
              }
          }
          else if(c == EOF) eprintf(..., "unexpected end of file, expect statement\n");
          else eprintf(..., "unexpected character ..., expect statement\n", c);
          exit(1);
      }
  }
  \<close>
  The recursion follows the input, so the model takes fuel: the first argument bounds the
  depth of the calls, one unit for each call of \<open>statement\<close> and for each turn of the loop
  of a block. \<open>statement\<close> returns the state and the case list its caller sees afterwards.
\<close>

fun statement :: "nat \<Rightarrow> compiler_args \<Rightarrow> string \<Rightarrow> long \<Rightarrow> cases \<Rightarrow> state \<Rightarrow> error + (state \<times> cases)"
  and block :: "nat \<Rightarrow> compiler_args \<Rightarrow> string \<Rightarrow> long \<Rightarrow> cases \<Rightarrow> state \<Rightarrow> error + (state \<times> cases)"
  where
  "statement 0 args fn_ident switch_id cs st = Inl Out_of_fuel"
| "statement (Suc n) args fn_ident switch_id cs st =
     (case fgetc_char (whitespace (inp st)) of (c, s1) \<Rightarrow>
        if c = CHR ''{'' then block n args fn_ident switch_id cs (st\<lparr>inp := whitespace s1\<rparr>)
        else if c = CHR '';'' then Inr (st\<lparr>inp := s1\<rparr>, cs)
        else if isalpha c then
          andthen (identifier_c (ungetc c s1)) (\<lambda>(buffer, s2).
            let st1 = st\<lparr>inp := whitespace s2\<rparr> in
            if buffer = ''goto'' then stmt_goto cs st1
            else if buffer = ''return'' then stmt_return args fn_ident cs st1
            else if buffer = ''if'' then
              andthen (stmt_if_head args st1) (\<lambda>(sid, st2).
              andthen (statement n args fn_ident (- 1) None st2) (\<lambda>(st3, _).
                let st4 = emit [''  jmp .L.end.'' @ fmt_lu sid, ''.L.else.'' @ fmt_lu sid @ '':''] st3 in
                case else_lookahead (whitespace (inp st4)) of (has_else, s5) \<Rightarrow>
                  andthen
                    (if has_else then statement n args fn_ident (- 1) None (st4\<lparr>inp := s5\<rparr>)
                     else Inr (st4\<lparr>inp := s5\<rparr>, None))
                    (\<lambda>(st6, _). Inr (emit [''.L.end.'' @ fmt_lu sid @ '':''] st6, cs))))
            else if buffer = ''while'' then
              andthen (stmt_while_head args st1) (\<lambda>(sid, st2).
              andthen (statement n args fn_ident (- 1) None st2) (\<lambda>(st3, _).
                Inr (emit [''  jmp .L.start.'' @ fmt_lu sid, ''.L.end.'' @ fmt_lu sid @ '':''] st3, cs)))
            else if buffer = ''switch'' then
              andthen (stmt_switch_head args st1) (\<lambda>(sid, st2).
              andthen (statement n args fn_ident sid (Some []) st2) (\<lambda>(st3, switch_case_list).
                Inr (emit (switch_tail sid (case switch_case_list of None \<Rightarrow> [] | Some vs \<Rightarrow> vs)) st3,
                     cs)))
            else if buffer = ''case'' then
              andthen (stmt_case_head args switch_id cs st1) (\<lambda>(st2, cs').
                statement n args fn_ident switch_id cs' st2)
            else
              (case fgetc_char (inp st1) of (c', s3) \<Rightarrow>
                 if c' = CHR '':'' then
                   statement n args fn_ident switch_id cs
                     (emit [''.L.label.'' @ buffer @ '':''] (st1\<lparr>inp := s3\<rparr>))
                 else Inl (Unexpected_char_expression c')))
        else if c = EOF_char then Inl Unexpected_eof_statement
        else Inl (Unexpected_char_statement c))"
| "block 0 args fn_ident switch_id cs st = Inl Out_of_fuel"
| "block (Suc n) args fn_ident switch_id cs st =
     (case fgetc_char (inp st) of (c, s1) \<Rightarrow>
        if c \<noteq> CHR ''}'' then
          andthen (statement n args fn_ident switch_id cs (st\<lparr>inp := ungetc c s1\<rparr>)) (\<lambda>(st1, cs1).
            block n args fn_ident switch_id cs1 (st1\<lparr>inp := whitespace (inp st1)\<rparr>))
        else Inr (st\<lparr>inp := s1\<rparr>, cs))"

section \<open>Functions and the top level\<close>



section \<open>The command line\<close>

text \<open>
  \<^verbatim>\<open>
  int main(int argc, char **argv) {
      char *input_files[argc - 1];
      struct compiler_args cargs = {
          .arg0 = argv[0], .output_file = A_OUT, .num_input_files = 0,
          .input_files = input_files, .do_assembling = true, .do_linking = true,
          .word_size = X86_64_WORD_SIZE,
      };
      for(int i = 1; i < argc; i++) {
          if(strcmp(argv[i], "--help") == 0) { help(argv[0]); return 0; }
          else if(strcmp(argv[i], "--version") == 0) { version(argv[0]); return 0; }
          else if(strcmp(argv[i], "-o") == 0) {
              if(argc - i <= 1) {
                  eprintf(argv[0], "missing filename after " QUOTE_FMT("%s") "\n", argv[i]);
              }
              cargs.output_file = argv[++i];
          }
          else if(strcmp(argv[i], "-S") == 0) { cargs.do_assembling = false; cargs.do_linking = false; }
          else if(strcmp(argv[i], "-c") == 0) { cargs.do_linking = false; }
          else if(argv[i][0] == '-') {
              eprintf(argv[0], "unrecognized command-line option " QUOTE_FMT("%s") "\n", argv[i]);
              return 1;
          }
          else { cargs.input_files[cargs.num_input_files++] = argv[i]; }
      }
      if(!cargs.num_input_files) {
          eprintf(argv[0], "no input files\ncompilation terminated.\n");
          return 1;
      }
      return compile(&cargs);
  }
  \<close>
  \<open>argv\<close> is the list of the arguments, the program's name first; \<open>argv[argc]\<close> is the null
  pointer. What \<open>main\<close> writes to \<open>stderr\<close> is a list of diagnostics.
\<close>

datatype diagnostic =
    Missing_filename_after string
  | Unrecognized_option string
  | No_input_files

text \<open>
  How \<open>main\<close> ends: it prints the help or the version and returns 0, it returns 1, or it
  returns what \<open>compile\<close> returns for the arguments it has collected. The diagnostics are
  those written before.
\<close>

datatype main_result =
    Printed_help
  | Printed_version
  | Returned_1 "diagnostic list"
  | Called_compile compiler_args "diagnostic list"

text \<open>
  Modelled from the spec: the constants \<open>A_OUT\<close> and \<open>X86_64_WORD_SIZE\<close> of \<open>compiler.h\<close>,
  which is not among the sources ("Default output file: \<open>a.out\<close>"; "word size in bytes
  (fixed at 8 for x86-64)").
\<close>

definition A_OUT :: string where
  "A_OUT = ''a.out''"

definition X86_64_WORD_SIZE :: "32 word" where
  "X86_64_WORD_SIZE = 8"

text \<open>
  The loop of \<open>main\<close> from index \<open>i\<close> on. \<open>Inl\<close> is a \<open>return\<close> from inside the loop;
  \<open>Inr\<close> is the loop's end, with the arguments collected and the diagnostics written.
\<close>

function arg_loop ::
  "string list \<Rightarrow> nat \<Rightarrow> compiler_args \<Rightarrow> diagnostic list
     \<Rightarrow> main_result + (compiler_args \<times> diagnostic list)" where
  "arg_loop argv i cargs err =
     (if i < length argv then
        (if argv ! i = ''--help'' then Inl Printed_help
         else if argv ! i = ''--version'' then Inl Printed_version
         else if argv ! i = ''-o'' then
           arg_loop argv (i + 1 + 1)
             (cargs\<lparr>output_file := (if i + 1 < length argv then Some (argv ! (i + 1)) else None)\<rparr>)
             (if int (length argv) - int i \<le> 1 then err @ [Missing_filename_after (argv ! i)] else err)
         else if argv ! i = ''-S'' then
           arg_loop argv (i + 1) (cargs\<lparr>do_assembling := False, do_linking := False\<rparr>) err
         else if argv ! i = ''-c'' then
           arg_loop argv (i + 1) (cargs\<lparr>do_linking := False\<rparr>) err
         else if (case argv ! i of [] \<Rightarrow> False | c # _ \<Rightarrow> c = CHR ''-'') then
           Inl (Returned_1 (err @ [Unrecognized_option (argv ! i)]))
         else
           arg_loop argv (i + 1) (cargs\<lparr>input_files := input_files cargs @ [argv ! i]\<rparr>) err)
      else Inr (cargs, err))"
  by pat_completeness auto
termination
  by (relation "measure (\<lambda>(argv, i, cargs, err). length argv - i)") auto

declare arg_loop.simps [simp del]

definition initial_args :: "string list \<Rightarrow> compiler_args" where
  "initial_args argv =
     \<lparr>arg0 = (case argv of [] \<Rightarrow> [] | a # _ \<Rightarrow> a), output_file = Some A_OUT, input_files = [],
      do_assembling = True, do_linking = True, word_size = X86_64_WORD_SIZE\<rparr>"

definition main_c :: "string list \<Rightarrow> main_result" where
  "main_c argv =
     (case arg_loop argv 1 (initial_args argv) [] of
        Inl r \<Rightarrow> r
      | Inr (cargs, err) \<Rightarrow>
          if input_files cargs = [] then Returned_1 (err @ [No_input_files])
          else Called_compile cargs err)"

section \<open>Notions used in the statements\<close>

text \<open>
  The identifier \<open>statement\<close> dispatches on: what \<open>identifier\<close> reads into \<open>buffer\<close> when the
  first byte after the white space is a letter.
\<close>

definition stmt_keyword :: "string \<Rightarrow> string option" where
  "stmt_keyword s =
     (case fgetc_char (whitespace s) of (c, s1) \<Rightarrow>
        if isalpha c then
          (case identifier_c (ungetc c s1) of Inl e \<Rightarrow> None | Inr (buffer, s2) \<Rightarrow> Some buffer)
        else None)"

text \<open>
  A result of \<open>statement\<close> with the case list replaced by that of the caller: what a caller
  sees who passed the null pointer down and keeps its own list.
\<close>

definition with_cases :: "cases \<Rightarrow> error + (state \<times> cases) \<Rightarrow> error + (state \<times> cases)" where
  "with_cases cs r = (case r of Inl e \<Rightarrow> Inl e | Inr (st', cs') \<Rightarrow> Inr (st', cs))"

text \<open>The base-ten value of a run of digits, as a natural number (no wrap-around).\<close>

definition digits_value :: "string \<Rightarrow> nat" where
  "digits_value ds = foldl (\<lambda>a d. a * 10 + (of_char d - 48)) 0 ds"

text \<open>
  The three kinds of ival, as they stand in the source text: a name, a run of decimal
  digits, and a character literal, given by what follows its opening quote (the closing
  quote included).
\<close>

datatype ival_text = Name string | Number string | Char_literal string

fun ival_source :: "ival_text \<Rightarrow> string" where
  "ival_source (Name n) = n"
| "ival_source (Number ds) = ds"
| "ival_source (Char_literal b) = CHR 0x27 # b"

text \<open>
  The operand of the directive an ival stands for, if it is one: a name is a letter
  followed by letters and digits, shorter than the buffer; a number is a non-empty run of
  digits whose value (modulo \<open>2^64\<close>) is not the end-of-file sentinel; a character literal is
  one that \<open>character\<close> reads to its last byte, with a value other than the sentinel.
\<close>

fun ival_operand :: "compiler_args \<Rightarrow> ival_text \<Rightarrow> string option" where
  "ival_operand args (Name n) =
     (if n \<noteq> [] \<and> isalpha (hd n) \<and> list_all isalnum n \<and> length n < BUFSIZ then Some n else None)"
| "ival_operand args (Number ds) =
     (if ds \<noteq> [] \<and> list_all isdigit ds \<and> (of_nat (digits_value ds) :: long) \<noteq> EOF_long
      then Some (fmt_lu (of_nat (digits_value ds))) else None)"
| "ival_operand args (Char_literal b) =
     (case character args b of
        Inr (v, []) \<Rightarrow> if v \<noteq> EOF_long then Some (fmt_lu v) else None
      | _ \<Rightarrow> None)"

text \<open>What may follow a token: the end of the input, or a byte that is no letter or digit.\<close>

definition delimited :: "string \<Rightarrow> bool" where
  "delimited r = (case r of [] \<Rightarrow> True | c # _ \<Rightarrow> \<not> isalnum c \<and> c \<noteq> EOF_char)"

text \<open>White space in the sense of \<open>isspace\<close>.\<close>

definition blanks :: "string \<Rightarrow> bool" where
  "blanks w = list_all isspace w"

text \<open>
  An initializer list as source text: the ivals, each with the white space before and
  after it, separated by commas.
\<close>

type_synonym initializer = "string \<times> ival_text \<times> string"

fun initializer_source :: "initializer list \<Rightarrow> string" where
  "initializer_source [] = []"
| "initializer_source [(a, t, b)] = a @ ival_source t @ b"
| "initializer_source ((a, t, b) # i # items) =
     a @ ival_source t @ b @ CHR '','' # initializer_source (i # items)"

definition initializer_ok :: "compiler_args \<Rightarrow> initializer \<Rightarrow> bool" where
  "initializer_ok args i = (case i of (a, t, b) \<Rightarrow> blanks a \<and> blanks b \<and> ival_operand args t \<noteq> None)"

text \<open>One \<open>.long\<close> line for each ival of the list.\<close>

definition long_lines :: "compiler_args \<Rightarrow> initializer list \<Rightarrow> string list" where
  "long_lines args items = map (\<lambda>(a, t, b). ''  .long '' @ the (ival_operand args t)) items"

text \<open>
  The text between \<open>[\<close> and \<open>]\<close> of a vector declaration, the bracket included: white space,
  and either nothing or a run of digits and white space. \<open>size_value\<close> is the size it
  denotes, 0 when there are no digits.
\<close>

definition size_source :: "string \<Rightarrow> string option \<Rightarrow> string \<Rightarrow> string" where
  "size_source a sz b = a @ (case sz of None \<Rightarrow> [] | Some ds \<Rightarrow> ds @ b) @ '']''"

definition size_value :: "string option \<Rightarrow> long" where
  "size_value sz = (case sz of None \<Rightarrow> 0 | Some ds \<Rightarrow> of_nat (digits_value ds))"

definition size_ok :: "string option \<Rightarrow> bool" where
  "size_ok sz =
     (case sz of None \<Rightarrow> True
      | Some ds \<Rightarrow> ds \<noteq> [] \<and> list_all isdigit ds \<and> (of_nat (digits_value ds) :: long) \<noteq> EOF_long)"

text \<open>
  A command-line argument that \<open>main\<close> takes for an input file: one that does not begin
  with \<open>-\<close>.
\<close>

definition plain_file :: "string \<Rightarrow> bool" where
  "plain_file f = (case f of [] \<Rightarrow> True | c # _ \<Rightarrow> c \<noteq> CHR ''-'')"

text \<open>
  The statements made of \<open>;\<close>, \<open>case\<close> labels, labels and blocks, with white space before a
  statement and before the closing brace of a block: the places where a \<open>case\<close> keeps the
  switch of its context.
\<close>

datatype case_stmt =
    Null_stmt
  | Case_stmt string case_stmt
  | Label_stmt string case_stmt
  | Block_stmt "case_stmt list" string
  | Spaced string case_stmt

fun stmt_source :: "case_stmt \<Rightarrow> string" where
  "stmt_source Null_stmt = '';''"
| "stmt_source (Case_stmt ds s) = ''case '' @ ds @ '':'' @ stmt_source s"
| "stmt_source (Label_stmt n s) = n @ '':'' @ stmt_source s"
| "stmt_source (Block_stmt ss w) = ''{'' @ concat (map stmt_source ss) @ w @ ''}''"
| "stmt_source (Spaced w s) = w @ stmt_source s"

definition stmt_keywords :: "string set" where
  "stmt_keywords = {''goto'', ''return'', ''if'', ''while'', ''switch'', ''case''}"

text \<open>
  The case values are non-empty runs of digits with a value other than the sentinel; the
  labels are names that are no keyword of \<open>statement\<close>.
\<close>

fun stmt_ok :: "case_stmt \<Rightarrow> bool" where
  "stmt_ok Null_stmt = True"
| "stmt_ok (Case_stmt ds s) =
     (ds \<noteq> [] \<and> list_all isdigit ds \<and> (of_nat (digits_value ds) :: long) \<noteq> EOF_long \<and> stmt_ok s)"
| "stmt_ok (Label_stmt n s) =
     (n \<noteq> [] \<and> isalpha (hd n) \<and> list_all isalnum n \<and> length n < BUFSIZ \<and> n \<notin> stmt_keywords
      \<and> stmt_ok s)"
| "stmt_ok (Block_stmt ss w) = (list_all stmt_ok ss \<and> blanks w)"
| "stmt_ok (Spaced w s) = (blanks w \<and> stmt_ok s)"

text \<open>The case values of a statement and the label lines it stands for, in source order.\<close>

fun case_values :: "case_stmt \<Rightarrow> long list" where
  "case_values Null_stmt = []"
| "case_values (Case_stmt ds s) = of_nat (digits_value ds) # case_values s"
| "case_values (Label_stmt n s) = case_values s"
| "case_values (Block_stmt ss w) = concat (map case_values ss)"
| "case_values (Spaced w s) = case_values s"

fun label_lines :: "long \<Rightarrow> case_stmt \<Rightarrow> string list" where
  "label_lines sw Null_stmt = []"
| "label_lines sw (Case_stmt ds s) = case_label sw (of_nat (digits_value ds)) # label_lines sw s"
| "label_lines sw (Label_stmt n s) = (''.L.label.'' @ n @ '':'') # label_lines sw s"
| "label_lines sw (Block_stmt ss w) = concat (map (label_lines sw) ss)"
| "label_lines sw (Spaced w s) = label_lines sw s"

text \<open>Fuel that is enough for \<open>statement\<close> to read the statement.\<close>

fun fuel_needed :: "case_stmt \<Rightarrow> nat" where
  "fuel_needed Null_stmt = 1"
| "fuel_needed (Case_stmt ds s) = Suc (fuel_needed s)"
| "fuel_needed (Label_stmt n s) = Suc (fuel_needed s)"
| "fuel_needed (Block_stmt ss w) = Suc (Suc (sum_list (map (\<lambda>s. Suc (fuel_needed s)) ss)))"
| "fuel_needed (Spaced w s) = fuel_needed s"

text \<open>
  What \<open>statement\<close> returns for such a statement read in the switch \<open>sw\<close> with the case list
  \<open>vs\<close>: the input behind it, the label lines written, one statement id used for each
  \<open>case\<close>, and the case values appended to the list.
\<close>

definition accepted :: "state \<Rightarrow> long \<Rightarrow> long list \<Rightarrow> case_stmt \<Rightarrow> string \<Rightarrow> state \<times> cases" where
  "accepted st sw vs s r =
     (st\<lparr>inp := r, outp := outp st @ label_lines sw s,
         stmt_id := stmt_id st + of_nat (length (case_values s))\<rparr>,
      Some (vs @ case_values s))"

section \<open>Evaluation and auxiliary facts\<close>

lemmas lex_defs =
  fgetc_char_def ungetc_def EOF_char_def EOF_long_def isdigit_def isalpha_def isalnum_def
  isspace_def identifier_c_def BUFSIZ_def number_def assert_char_def andthen_def emit_def

lemmas fmt_defs = fmt_lu_def fmt_ld_def fmt_d_def dec_int_def dec_nat.simps digit_char_def

lemmas stmt_defs =
  expression_def load_value_def stmt_goto_def stmt_return_def stmt_if_head_def
  stmt_while_head_def stmt_switch_head_def stmt_case_head_def else_lookahead_def
  unget_buffer_def list_push_def case_label_def switch_tail_def dispatch_entry_def

lemma ival_emits:
  assumes "ival args st = Inr st'"
  shows "\<exists>v. outp st' = outp st @ [''  .long '' @ v]"
  using assms
  by (auto simp: ival_def andthen_def emit_def split: prod.splits if_splits sum.splits)

lemma ivals_emit:
  "ivals args st = Inr (c, k, st') \<Longrightarrow>
   \<exists>L. outp st' = outp st @ L \<and> length L = k \<and> 0 < k \<and> (\<forall>l\<in>set L. \<exists>v. l = ''  .long '' @ v)"
proof (induction args st arbitrary: c k st' rule: ivals.induct)
  case (1 args st)
  from "1.prems" obtain st1 where i1: "ival args (st\<lparr>inp := whitespace (inp st)\<rparr>) = Inr st1"
    by (subst (asm) ivals.simps) (auto split: sum.splits)
  then obtain v where o1: "outp st1 = outp st @ [''  .long '' @ v]"
    using ival_emits by fastforce
  obtain c1 s2 where g: "fgetc_char (whitespace (inp st1)) = (c1, s2)"
    by (cases "fgetc_char (whitespace (inp st1))")
  show ?case
  proof (cases "c1 = CHR '',''")
    case False
    with "1.prems" i1 g have "k = 1" "st' = st1\<lparr>inp := s2\<rparr>"
      by (subst (asm) ivals.simps, simp)+
    with o1 show ?thesis by simp
  next
    case True
    with "1.prems" i1 g obtain k2 where
      r: "ivals args (st1\<lparr>inp := s2\<rparr>) = Inr (c, k2, st')" and k: "k = Suc k2"
      by (subst (asm) ivals.simps) (auto split: sum.splits)
    from "1.IH" [OF i1 g [symmetric] True r]
    obtain L where "outp st' = outp (st1\<lparr>inp := s2\<rparr>) @ L" "length L = k2"
      "\<forall>l\<in>set L. \<exists>v. l = ''  .long '' @ v" by blast
    with o1 k show ?thesis
      by (intro exI [of _ "(''  .long '' @ v) # L"]) auto
  qed
qed

lemma vector_empty_list:
  assumes "vector_size (inp st) = Inr (num, s0)" and "fgetc_char (whitespace s0) = (CHR '';'', s1)"
  shows "vector args ident st =
     Inr (st\<lparr>inp := s1,
              outp := outp st @ data_header args ident @
                (if scast (word_size args) * num \<noteq> 0
                 then [''  .zero '' @ fmt_ld (scast (word_size args) * num)] else [])\<rparr>)"
  using assms by (simp add: vector_def andthen_def emit_def)

lemma vector_initializers:
  assumes "vector_size (inp st) = Inr (num, s0)" and "fgetc_char (whitespace s0) = (c, s1)"
    and "c \<noteq> CHR '';''"
  shows "vector args ident st =
     andthen (ivals args (st\<lparr>outp := outp st @ data_header args ident, inp := ungetc c s1\<rparr>))
       (\<lambda>(c', k, st1). if c' \<noteq> CHR '';'' then Inl Expect_semicolon_declaration else Inr st1)"
  using assms by (simp add: vector_def andthen_def emit_def)

lemma arg_loop_end: "length argv \<le> i \<Longrightarrow> arg_loop argv i cargs err = Inr (cargs, err)"
  by (simp add: arg_loop.simps)

lemma set_whitespace: "set (whitespace s) \<subseteq> set s"
  by (induction s) (auto simp: ungetc_def)

lemma number_loop_digits:
  "EOF_char \<notin> set s \<Longrightarrow>
   number_loop rd (of_nat a) s =
     (if rd = 0 \<and> s = [] then EOF_long
      else of_nat (foldl (\<lambda>a d. a * 10 + (of_char d - 48)) a (takeWhile isdigit s)),
      dropWhile isdigit s)"
proof (induction s arbitrary: rd a)
  case Nil
  then show ?case by simp
next
  case (Cons c s)
  show ?case
  proof (cases "isdigit c")
    case False
    from Cons.prems have "c \<noteq> EOF_char" "EOF_char \<notin> set s" by auto
    with False show ?thesis by (simp add: ungetc_def)
  next
    case True
    have "of_nat a * 10 + of_nat (of_char c - 48) = (of_nat (a * 10 + (of_char c - 48)) :: long)"
      by simp
    moreover from Cons.prems have "c \<noteq> EOF_char" "EOF_char \<notin> set s" by auto
    ultimately show ?thesis
      using True Cons.IH [of "rd + 1" "a * 10 + (of_char c - 48)"] by simp
  qed
qed

lemma word_size_initial_args: "nat (sint (word_size (initial_args argv))) = 8"
  by (simp add: initial_args_def X86_64_WORD_SIZE_def)

lemma isalpha_not_brace: "isalpha c \<Longrightarrow> c \<noteq> CHR ''{'' \<and> c \<noteq> CHR '';''"
  by (auto simp: isalpha_def)

lemma stmt_keyword_SomeD:
  assumes "stmt_keyword s = Some kw"
  obtains c s1 s2 where "fgetc_char (whitespace s) = (c, s1)" "isalpha c"
    "c \<noteq> CHR ''{''" "c \<noteq> CHR '';''" "identifier_c (ungetc c s1) = Inr (kw, s2)"
proof -
  obtain c s1 where g: "fgetc_char (whitespace s) = (c, s1)"
    by (cases "fgetc_char (whitespace s)")
  with assms have a: "isalpha c"
    by (auto simp: stmt_keyword_def split: if_splits)
  with assms g obtain s2 where "identifier_c (ungetc c s1) = Inr (kw, s2)"
    by (auto simp: stmt_keyword_def split: sum.splits)
  with g a isalpha_not_brace [OF a] that show thesis by blast
qed

lemma case_rejected:
  assumes "stmt_keyword (inp st) = Some ''case''" and "sint switch_id < 0"
  shows "statement (Suc n) args fn_ident switch_id cs st = Inl Case_outside_switch"
proof -
  from assms(1) obtain c s1 s2 where
    "fgetc_char (whitespace (inp st)) = (c, s1)" "isalpha c"
    "c \<noteq> CHR ''{''" "c \<noteq> CHR '';''" "identifier_c (ungetc c s1) = Inr (''case'', s2)"
    by (rule stmt_keyword_SomeD)
  with assms(2) show ?thesis
    by (simp add: andthen_def stmt_case_head_def)
qed

lemma andthen_Inr [simp]: "andthen (Inr x) f = f x"
  by (simp add: andthen_def)

lemma andthen_Inl [simp]: "andthen (Inl e) f = Inl e"
  by (simp add: andthen_def)

lemma statement_if:
  assumes "fgetc_char (whitespace (inp st)) = (c, s1)" "isalpha c"
    "c \<noteq> CHR ''{''" "c \<noteq> CHR '';''" "identifier_c (ungetc c s1) = Inr (''if'', s2)"
  shows "statement (Suc n) args fn_ident switch_id cs st =
     andthen (stmt_if_head args (st\<lparr>inp := whitespace s2\<rparr>)) (\<lambda>(sid, st2).
     andthen (statement n args fn_ident (- 1) None st2) (\<lambda>(st3, _).
       let st4 = emit [''  jmp .L.end.'' @ fmt_lu sid, ''.L.else.'' @ fmt_lu sid @ '':''] st3 in
       case else_lookahead (whitespace (inp st4)) of (has_else, s5) \<Rightarrow>
         andthen
           (if has_else then statement n args fn_ident (- 1) None (st4\<lparr>inp := s5\<rparr>)
            else Inr (st4\<lparr>inp := s5\<rparr>, None))
           (\<lambda>(st6, _). Inr (emit [''.L.end.'' @ fmt_lu sid @ '':''] st6, cs))))"
  using assms by (simp del: append.simps)

lemma statement_while:
  assumes "fgetc_char (whitespace (inp st)) = (c, s1)" "isalpha c"
    "c \<noteq> CHR ''{''" "c \<noteq> CHR '';''" "identifier_c (ungetc c s1) = Inr (''while'', s2)"
  shows "statement (Suc n) args fn_ident switch_id cs st =
     andthen (stmt_while_head args (st\<lparr>inp := whitespace s2\<rparr>)) (\<lambda>(sid, st2).
     andthen (statement n args fn_ident (- 1) None st2) (\<lambda>(st3, _).
       Inr (emit [''  jmp .L.start.'' @ fmt_lu sid, ''.L.end.'' @ fmt_lu sid @ '':''] st3, cs)))"
  using assms by (simp del: append.simps)

lemma with_cases_andthen:
  "with_cases cs (andthen m f) = andthen m (\<lambda>x. with_cases cs (f x))"
  by (simp add: with_cases_def andthen_def split: sum.splits)

lemma with_cases_Inr: "with_cases cs (Inr (s, cs')) = Inr (s, cs)"
  by (simp add: with_cases_def)

lemma if_context_discarded:
  assumes "stmt_keyword (inp st) = Some ''if''"
  shows "statement (Suc n) args fn_ident switch_id cs st =
     with_cases cs (statement (Suc n) args fn_ident (- 1) None st)"
proof -
  from assms(1) obtain c s1 s2 where
    k: "fgetc_char (whitespace (inp st)) = (c, s1)" "isalpha c"
    "c \<noteq> CHR ''{''" "c \<noteq> CHR '';''" "identifier_c (ungetc c s1) = Inr (''if'', s2)"
    by (rule stmt_keyword_SomeD)
  show ?thesis
    unfolding statement_if [OF k] with_cases_andthen
    by (simp add: with_cases_andthen with_cases_Inr Let_def split_def del: append.simps)
qed

lemma while_context_discarded:
  assumes "stmt_keyword (inp st) = Some ''while''"
  shows "statement (Suc n) args fn_ident switch_id cs st =
     with_cases cs (statement (Suc n) args fn_ident (- 1) None st)"
proof -
  from assms(1) obtain c s1 s2 where
    k: "fgetc_char (whitespace (inp st)) = (c, s1)" "isalpha c"
    "c \<noteq> CHR ''{''" "c \<noteq> CHR '';''" "identifier_c (ungetc c s1) = Inr (''while'', s2)"
    by (rule stmt_keyword_SomeD)
  show ?thesis
    unfolding statement_while [OF k] with_cases_andthen
    by (simp add: with_cases_andthen with_cases_Inr Let_def split_def del: append.simps)
qed

lemma case_in_if_rejected:
  "statement (Suc (Suc n)) args fn_ident switch_id cs (st\<lparr>inp := ''if(1)case 7:;'' @ r\<rparr>)
   = Inl Case_outside_switch"
  by (simp add: lex_defs stmt_case_head_def stmt_if_head_def expression_def Let_def)

lemma case_in_else_rejected:
  "statement (Suc (Suc n)) args fn_ident switch_id cs (st\<lparr>inp := ''if(1);else case 7:;'' @ r\<rparr>)
   = Inl Case_outside_switch"
  by (simp add: lex_defs stmt_case_head_def stmt_if_head_def expression_def Let_def else_lookahead_def)

lemma case_in_while_rejected:
  "statement (Suc (Suc n)) args fn_ident switch_id cs (st\<lparr>inp := ''while(1)case 7:;'' @ r\<rparr>)
   = Inl Case_outside_switch"
  by (simp add: lex_defs stmt_case_head_def stmt_while_head_def expression_def Let_def)

subsection \<open>Tokens followed by more input\<close>

lemma isalnum_not_EOF: "isalnum c \<Longrightarrow> c \<noteq> EOF_char"
  by (auto simp: isalnum_def isalpha_def isdigit_def EOF_char_def)

lemma isalnum_not_space: "isalnum c \<Longrightarrow> \<not> isspace c"
  by (auto simp: isalnum_def isalpha_def isdigit_def isspace_def)

lemma whitespace_token: "isalnum c \<Longrightarrow> whitespace (c # s) = c # s"
  by (simp add: isalnum_not_EOF isalnum_not_space ungetc_def)

lemma identifier_loop_name:
  assumes "list_all isalnum n" and "buf \<noteq> [] \<or> n = [] \<or> isalpha (hd n)" and "delimited r"
  shows "identifier_loop buf (n @ r) = (buf @ n, r)"
  using assms
proof (induction n arbitrary: buf)
  case Nil
  then show ?case
    by (cases r) (auto simp: delimited_def ungetc_def)
next
  case (Cons c n)
  then show ?case
    by (simp add: isalnum_not_EOF)
qed

lemma number_loop_run:
  assumes "list_all isdigit ds" and "delimited r"
  shows "number_loop rd (of_nat a) (ds @ r) =
     (if rd = 0 \<and> ds = [] \<and> r = [] then EOF_long
      else of_nat (foldl (\<lambda>a d. a * 10 + (of_char d - 48)) a ds), r)"
  using assms
proof (induction ds arbitrary: rd a)
  case Nil
  then show ?case
    by (cases r) (auto simp: delimited_def ungetc_def isalnum_def)
next
  case (Cons c ds)
  have "of_nat a * 10 + of_nat (of_char c - 48) = (of_nat (a * 10 + (of_char c - 48)) :: long)"
    by simp
  moreover from Cons.prems have "isdigit c" "list_all isdigit ds"
    by simp_all
  moreover from this have "c \<noteq> EOF_char"
    by (auto simp: isdigit_def EOF_char_def)
  ultimately show ?case
    using Cons.IH [of "rd + 1" "a * 10 + (of_char c - 48)"] Cons.prems(2) by simp
qed

lemma number_digits:
  assumes "ds \<noteq> []" and "list_all isdigit ds" and "delimited r"
  shows "number (ds @ r) = (of_nat (digits_value ds), r)"
proof -
  from assms(1,2) obtain c ds' where d: "ds = c # ds'" "isdigit c"
    by (cases ds) auto
  then have "whitespace (ds @ r) = ds @ r"
    using whitespace_token [of c] by (simp add: isalnum_def)
  with number_loop_run [OF assms(2,3), of 0 0] assms(1) show ?thesis
    by (simp add: number_def digits_value_def)
qed

lemma character_loop_empty: "character_loop n i c v [] \<noteq> Inr x"
proof (induction n arbitrary: i c v)
  case 0
  then show ?case by simp
next
  case (Suc n)
  show ?case
  proof (cases "c = CHR ''*''")
    case True
    then show ?thesis
      by (simp add: fgetc_char_def escape_def EOF_char_def)
  next
    case False
    then show ?thesis
      using Suc.IH by (simp add: fgetc_char_def EOF_char_def split: option.splits)
  qed
qed

lemma character_loop_tail:
  "character_loop n i c v b = Inr (w, s') \<Longrightarrow> character_loop n i c v (b @ r) = Inr (w, s' @ r)"
proof (induction n arbitrary: i c v b)
  case 0
  then show ?case
    by (cases b) (auto split: if_splits)
next
  case (Suc n)
  have "b \<noteq> []"
    using Suc.prems character_loop_empty by blast
  then obtain x b1 where b: "b = x # b1"
    by (cases b) auto
  show ?case
  proof (cases "c = CHR ''*''")
    case True
    with Suc.prems b show ?thesis
      by (auto simp: fgetc_char_def split: option.splits if_splits intro: Suc.IH)
  next
    case False
    show ?thesis
    proof (cases "x = CHR ''*''")
      case x: True
      with Suc.prems False b obtain y b2 where b1: "b1 = y # b2"
        by (cases b1) (auto simp: fgetc_char_def escape_def EOF_char_def)
      with Suc.prems False b x show ?thesis
        by (auto simp: fgetc_char_def split: option.splits if_splits intro: Suc.IH)
    next
      case x: False
      with Suc.prems False b show ?thesis
        by (auto simp: fgetc_char_def split: option.splits if_splits intro: Suc.IH)
    qed
  qed
qed

lemma unget_token: "c \<noteq> EOF_char \<Longrightarrow> fgetc_char (c # s) = (c, s) \<and> ungetc c s = c # s"
  by (simp add: fgetc_char_def ungetc_def)

lemma ival_token:
  assumes "ival_operand args t = Some x" and "delimited r"
  shows "ival args (st\<lparr>inp := ival_source t @ r\<rparr>) =
           Inr (st\<lparr>inp := r, outp := outp st @ [''  .long '' @ x]\<rparr>)"
proof (cases t)
  case (Name n)
  with assms(1) have n: "n \<noteq> []" "isalpha (hd n)" "list_all isalnum n" "length n < BUFSIZ" "x = n"
    by (simp_all split: if_splits)
  then obtain c n' where c: "n = c # n'" "isalpha c" "isalnum c"
    by (cases n) auto
  then have w: "whitespace (n @ r) = n @ r"
    using whitespace_token [of c] by simp
  have "identifier_c (n @ r) = Inr (n, r)"
    using identifier_loop_name [OF n(3) _ assms(2), of "[]"] n w
    by (simp add: identifier_c_def)
  with c n Name unget_token [OF isalnum_not_EOF [OF c(3)]] show ?thesis
    by (simp add: ival_def andthen_def emit_def)
next
  case (Number ds)
  with assms(1) have d: "ds \<noteq> []" "list_all isdigit ds"
    "(of_nat (digits_value ds) :: long) \<noteq> EOF_long" "x = fmt_lu (of_nat (digits_value ds))"
    by (simp_all split: if_splits)
  then obtain c ds' where c: "ds = c # ds'" "isdigit c"
    by (cases ds) auto
  then have c': "isalnum c" "\<not> isalpha c" "c \<noteq> CHR 0x27"
    by (auto simp: isalnum_def isalpha_def isdigit_def)
  from number_digits [OF d(1,2) assms(2)] c d Number c'
    unget_token [OF isalnum_not_EOF [OF c'(1)]] show ?thesis
    by (simp add: ival_def emit_def)
next
  case (Char_literal b)
  with assms(1) obtain v where v: "character args b = Inr (v, [])" "v \<noteq> EOF_long" "x = fmt_lu v"
    by (auto split: sum.splits list.splits if_splits)
  from character_loop_tail [OF v(1) [unfolded character_def], of r]
  have "character args (b @ r) = Inr (v, r)"
    by (simp add: character_def)
  with v Char_literal show ?thesis
    by (simp add: ival_def fgetc_char_def isalpha_def andthen_def emit_def)
qed

subsection \<open>Initializer lists and vector sizes\<close>

lemma isspace_not_EOF: "isspace c \<Longrightarrow> c \<noteq> EOF_char"
  by (auto simp: isspace_def EOF_char_def)

lemma whitespace_blanks: "blanks a \<Longrightarrow> whitespace (a @ s) = whitespace s"
  by (induction a) (simp_all add: blanks_def isspace_not_EOF)

lemma whitespace_stop: "\<not> isspace c \<Longrightarrow> c \<noteq> EOF_char \<Longrightarrow> whitespace (c # s) = c # s"
  by (simp add: ungetc_def)

lemma blanks_delimited:
  assumes "blanks b" and "d = CHR '','' \<or> d = CHR '';'' \<or> d = CHR '']''"
  shows "delimited (b @ d # r)"
proof (cases b)
  case Nil
  with assms(2) show ?thesis
    by (auto simp: delimited_def isalnum_def isalpha_def isdigit_def EOF_char_def)
next
  case (Cons c b')
  with assms(1) show ?thesis
    using isalnum_not_space [of c] isspace_not_EOF [of c]
    by (auto simp: blanks_def delimited_def)
qed

lemma blanks_then:
  "blanks b \<Longrightarrow> d = CHR '','' \<or> d = CHR '';'' \<or> d = CHR '']'' \<Longrightarrow>
   fgetc_char (whitespace (b @ d # r)) = (d, r)"
  by (auto simp: whitespace_blanks whitespace_stop isspace_def EOF_char_def fgetc_char_def ungetc_def)

lemma blanks_then_fgetc:
  "blanks b \<Longrightarrow> d = CHR '','' \<or> d = CHR '';'' \<or> d = CHR '']'' \<Longrightarrow>
   fgetc (whitespace (b @ d # r)) = (Some d, r)"
  by (auto simp: whitespace_blanks whitespace_stop isspace_def EOF_char_def ungetc_def)

lemma ival_source_head:
  assumes "ival_operand args t = Some x"
  obtains c s where "ival_source t = c # s" "\<not> isspace c" "c \<noteq> EOF_char" "c \<noteq> CHR '';''"
    "c \<noteq> CHR '']''"
proof (cases t)
  case (Name n)
  with assms obtain c s where c: "n = c # s" "isalpha c"
    by (cases n) (auto split: if_splits)
  then have "\<not> isspace c" "c \<noteq> EOF_char" "c \<noteq> CHR '';''" "c \<noteq> CHR '']''"
    by (auto simp: isalpha_def isspace_def EOF_char_def)
  with Name c that [of c s] show ?thesis
    by simp
next
  case (Number ds)
  with assms obtain c s where c: "ds = c # s" "isdigit c"
    by (cases ds) (auto split: if_splits)
  then have "\<not> isspace c" "c \<noteq> EOF_char" "c \<noteq> CHR '';''" "c \<noteq> CHR '']''"
    by (auto simp: isdigit_def isspace_def EOF_char_def)
  with Number c that [of c s] show ?thesis
    by simp
next
  case (Char_literal b)
  have "\<not> isspace (CHR 0x27)" "CHR 0x27 \<noteq> EOF_char"
    by (auto simp: isspace_def EOF_char_def)
  with Char_literal that [of "CHR 0x27" b] show ?thesis
    by simp
qed

lemma whitespace_item:
  assumes "blanks a" and "ival_operand args t = Some x"
  shows "whitespace (a @ ival_source t @ r) = ival_source t @ r"
proof -
  from assms(2) obtain c s where "ival_source t = c # s" "\<not> isspace c" "c \<noteq> EOF_char"
    by (rule ival_source_head)
  with assms(1) show ?thesis
    by (simp add: whitespace_blanks ungetc_def)
qed

lemma ivals_list:
  assumes "items \<noteq> []" and "\<forall>i\<in>set items. initializer_ok args i"
  shows "ivals args (st\<lparr>inp := initializer_source items @ CHR '';'' # r\<rparr>) =
           Inr (CHR '';'', length items, st\<lparr>inp := r, outp := outp st @ long_lines args items\<rparr>)"
  using assms
proof (induction items arbitrary: st rule: list_nonempty_induct)
  case (single i)
  obtain a t b where i: "i = (a, t, b)" by (cases i)
  with single obtain x where ok: "blanks a" "blanks b" "ival_operand args t = Some x"
    by (auto simp: initializer_ok_def)
  have "ival args (st\<lparr>inp := ival_source t @ b @ CHR '';'' # r\<rparr>) =
           Inr (st\<lparr>inp := b @ CHR '';'' # r, outp := outp st @ [''  .long '' @ x]\<rparr>)"
    using ival_token [OF ok(3) blanks_delimited [OF ok(2)]] by simp
  with i ok show ?case
    by (subst ivals.simps) (simp add: whitespace_item blanks_then long_lines_def)
next
  case (cons i items)
  obtain a t b where i: "i = (a, t, b)" by (cases i)
  with cons.prems obtain x where ok: "blanks a" "blanks b" "ival_operand args t = Some x"
    by (auto simp: initializer_ok_def)
  from cons.hyps obtain j js where js: "items = j # js" by (cases items) auto
  have "ival args (st\<lparr>inp := ival_source t @ b @ CHR '','' # initializer_source items @ CHR '';'' # r\<rparr>) =
           Inr (st\<lparr>inp := b @ CHR '','' # initializer_source items @ CHR '';'' # r,
                   outp := outp st @ [''  .long '' @ x]\<rparr>)"
    using ival_token [OF ok(3) blanks_delimited [OF ok(2)]] by simp
  moreover have "ivals args (st\<lparr>outp := outp st @ [''  .long '' @ x],
                   inp := initializer_source items @ CHR '';'' # r\<rparr>) =
     Inr (CHR '';'', length items, st\<lparr>inp := r, outp := outp st @ [''  .long '' @ x] @ long_lines args items\<rparr>)"
    using cons.IH [of "st\<lparr>outp := outp st @ [''  .long '' @ x]\<rparr>"] cons.prems by simp
  ultimately show ?case
    using i ok js
    by (subst ivals.simps) (simp add: whitespace_item blanks_then long_lines_def)
qed

lemma vector_size_text:
  assumes "blanks a" and "blanks b" and "size_ok sz"
  shows "vector_size (size_source a sz b @ r) = Inr (size_value sz, r)"
proof (cases sz)
  case None
  with blanks_then [OF assms(1), of "CHR '']''" r] show ?thesis
    by (simp add: vector_size_def size_source_def size_value_def)
next
  case (Some ds)
  with assms(3) have d: "ds \<noteq> []" "list_all isdigit ds" "(of_nat (digits_value ds) :: long) \<noteq> EOF_long"
    by (simp_all add: size_ok_def)
  then obtain c ds' where c: "ds = c # ds'" "isdigit c"
    by (cases ds) auto
  then have c': "\<not> isspace c" "c \<noteq> EOF_char" "c \<noteq> CHR '']''"
    by (auto simp: isdigit_def isspace_def EOF_char_def)
  have w: "whitespace (a @ ds @ b @ CHR '']'' # r) = ds @ b @ CHR '']'' # r"
    using assms(1) c c' by (simp add: whitespace_blanks ungetc_def)
  have n: "number (ds @ b @ CHR '']'' # r) = (of_nat (digits_value ds), b @ CHR '']'' # r)"
    using number_digits [OF d(1,2) blanks_delimited [OF assms(2)]] by simp
  have g: "fgetc_char (ds @ b @ CHR '']'' # r) = (c, ds' @ b @ CHR '']'' # r)"
    "ungetc c (ds' @ b @ CHR '']'' # r) = ds @ b @ CHR '']'' # r"
    using c c' unget_token [of c] by simp_all
  show ?thesis
    using Some w n g d(3) c' blanks_then_fgetc [OF assms(2), of "CHR '']''" r]
    by (simp add: vector_size_def size_source_def size_value_def assert_char_def andthen_def
        split: prod.splits)
qed

lemma ivals_skip:
  assumes "whitespace (whitespace s) = whitespace s"
  shows "ivals args (st\<lparr>inp := whitespace s\<rparr>) = ivals args (st\<lparr>inp := s\<rparr>)"
  by (subst ivals.simps, subst (2) ivals.simps) (simp add: assms)

lemma vector_list:
  assumes "blanks a" and "blanks b" and "size_ok sz"
    and "items \<noteq> []" and "\<forall>i\<in>set items. initializer_ok args i"
  shows "vector args ident (st\<lparr>inp := size_source a sz b @ initializer_source items @ CHR '';'' # r\<rparr>) =
           Inr (st\<lparr>inp := r, outp := outp st @ data_header args ident @ long_lines args items\<rparr>)"
proof -
  let ?src = "initializer_source items @ CHR '';'' # r"
  from assms(4) obtain a1 t1 b1 js where i: "items = (a1, t1, b1) # js"
    by (cases items) auto
  with assms(5) obtain x where ok: "blanks a1" "ival_operand args t1 = Some x"
    by (auto simp: initializer_ok_def)
  from ok(2) obtain c s where c: "ival_source t1 = c # s" "\<not> isspace c" "c \<noteq> EOF_char"
    "c \<noteq> CHR '';''"
    by (rule ival_source_head)
  obtain rest where src: "?src = a1 @ c # rest"
    using i c(1) by (cases js) auto
  then have w: "whitespace ?src = c # rest"
    using ok(1) c by (simp add: whitespace_blanks ungetc_def)
  have g: "fgetc_char (whitespace ?src) = (c, rest)" "ungetc c rest = whitespace ?src"
    using w c unget_token [of c rest] by simp_all
  have "ivals args (st\<lparr>outp := outp st @ data_header args ident, inp := whitespace ?src\<rparr>) =
      Inr (CHR '';'', length items,
           st\<lparr>inp := r, outp := outp st @ data_header args ident @ long_lines args items\<rparr>)"
  proof -
    have "ivals args (st\<lparr>outp := outp st @ data_header args ident, inp := whitespace ?src\<rparr>) =
      ivals args (st\<lparr>outp := outp st @ data_header args ident, inp := ?src\<rparr>)"
      using ivals_skip [where s = ?src and args = args
          and st = "st\<lparr>outp := outp st @ data_header args ident\<rparr>"]
        w whitespace_stop [OF c(2,3), of rest]
      by simp
    also have "\<dots> = Inr (CHR '';'', length items,
           st\<lparr>inp := r, outp := outp st @ data_header args ident @ long_lines args items\<rparr>)"
      using ivals_list [OF assms(4,5), where st = "st\<lparr>outp := outp st @ data_header args ident\<rparr>"
          and r = r]
      by simp
    finally show ?thesis .
  qed
  with vector_initializers [where st = "st\<lparr>inp := size_source a sz b @ ?src\<rparr>"
      and num = "size_value sz" and ?s0.0 = ?src and c = c and ?s1.0 = rest and args = args
      and ident = ident] vector_size_text [OF assms(1-3), of ?src] g c(4)
  show ?thesis
    by (simp add: andthen_def)
qed

lemma vector_no_list:
  assumes "blanks a" and "blanks b" and "blanks w" and "size_ok sz"
  shows "vector args ident (st\<lparr>inp := size_source a sz b @ w @ CHR '';'' # r\<rparr>) =
           Inr (st\<lparr>inp := r, outp := outp st @ data_header args ident @
                  (if scast (word_size args) * size_value sz \<noteq> 0
                   then [''  .zero '' @ fmt_ld (scast (word_size args) * size_value sz)]
                   else [])\<rparr>)"
  using vector_empty_list [where st = "st\<lparr>inp := size_source a sz b @ w @ CHR '';'' # r\<rparr>"
      and num = "size_value sz" and ?s0.0 = "w @ CHR '';'' # r" and ?s1.0 = r and args = args
      and ident = ident]
    vector_size_text [OF assms(1,2,4), of "w @ CHR '';'' # r"]
    blanks_then [OF assms(3), of "CHR '';''" r]
  by simp

lemma vector_lines:
  assumes "vector args ident st = Inr st'"
  shows "\<exists>L. outp st' = outp st @ data_header args ident @ L
          \<and> (L = [] \<or> (\<exists>z. L = [''  .zero '' @ z]) \<or> (\<forall>l\<in>set L. \<exists>x. l = ''  .long '' @ x))"
proof -
  from assms obtain num s0 where vs: "vector_size (inp st) = Inr (num, s0)"
    by (auto simp: vector_def andthen_def split: sum.splits)
  obtain c s1 where g: "fgetc_char (whitespace s0) = (c, s1)"
    by (cases "fgetc_char (whitespace s0)")
  show ?thesis
  proof (cases "c = CHR '';''")
    case True
    with vector_empty_list [OF vs, of s1 args ident] g assms show ?thesis
      by auto
  next
    case False
    from assms vector_initializers [OF vs g False, of args ident]
    obtain k where i: "ivals args (st\<lparr>outp := outp st @ data_header args ident, inp := ungetc c s1\<rparr>)
        = Inr (CHR '';'', k, st')"
      by (auto simp: andthen_def split: sum.splits if_splits)
    from ivals_emit [OF i] obtain L where
      "outp st' = (outp st @ data_header args ident) @ L"
      "\<forall>l\<in>set L. \<exists>v. l = ''  .long '' @ v"
      by auto
    then show ?thesis by auto
  qed
qed

subsection \<open>Input files and \<open>-o\<close> on the command line\<close>

lemma arg_loop_files:
  assumes "list_all plain_file fs"
  shows "arg_loop (pre @ fs @ post) (length pre) cargs err
       = arg_loop (pre @ fs @ post) (length pre + length fs)
           (cargs\<lparr>input_files := input_files cargs @ fs\<rparr>) err"
  using assms
proof (induction fs arbitrary: pre cargs)
  case Nil
  then show ?case by simp
next
  case (Cons f fs)
  from Cons.prems have f: "plain_file f" "list_all plain_file fs"
    by simp_all
  then have nf: "f \<noteq> ''--help''" "f \<noteq> ''--version''" "f \<noteq> ''-o''" "f \<noteq> ''-S''" "f \<noteq> ''-c''"
    "\<not> (case f of [] \<Rightarrow> False | c # _ \<Rightarrow> c = CHR ''-'')"
    by (auto simp: plain_file_def split: list.splits)
  have "arg_loop (pre @ (f # fs) @ post) (length pre) cargs err
      = arg_loop (pre @ (f # fs) @ post) (length pre + 1)
          (cargs\<lparr>input_files := input_files cargs @ [f]\<rparr>) err"
    using nf by (subst arg_loop.simps) (simp add: nth_append)
  also have "\<dots> = arg_loop ((pre @ [f]) @ fs @ post) (length (pre @ [f]))
          (cargs\<lparr>input_files := input_files cargs @ [f]\<rparr>) err"
    by simp
  also have "\<dots> = arg_loop ((pre @ [f]) @ fs @ post) (length (pre @ [f]) + length fs)
          (cargs\<lparr>input_files := input_files cargs @ [f] @ fs\<rparr>) err"
    using Cons.IH [OF f(2), of "pre @ [f]" "cargs\<lparr>input_files := input_files cargs @ [f]\<rparr>"]
    by simp
  finally show ?case by simp
qed

lemma arg_loop_o_next:
  "arg_loop (pre @ ''-o'' # f # post) (length pre) cargs err
     = arg_loop (pre @ ''-o'' # f # post) (length pre + 2) (cargs\<lparr>output_file := Some f\<rparr>) err"
  by (subst arg_loop.simps) (simp add: nth_append)

lemma arg_loop_o_last:
  "arg_loop (pre @ [''-o'']) (length pre) cargs err
     = Inr (cargs\<lparr>output_file := None\<rparr>, err @ [Missing_filename_after ''-o''])"
  by (subst arg_loop.simps) (simp add: nth_append arg_loop_end)

lemma main_o_next:
  assumes "list_all plain_file fs" and "list_all plain_file gs"
  shows "main_c (a0 # fs @ ''-o'' # f # gs) =
     (if fs @ gs = [] then Returned_1 [No_input_files]
      else Called_compile
        \<lparr>arg0 = a0, output_file = Some f, input_files = fs @ gs, do_assembling = True,
         do_linking = True, word_size = X86_64_WORD_SIZE\<rparr> [])"
proof -
  let ?argv = "a0 # fs @ ''-o'' # f # gs"
  let ?c0 = "initial_args ?argv"
  have "arg_loop ?argv 1 ?c0 [] = arg_loop ([a0] @ fs @ (''-o'' # f # gs)) (length [a0]) ?c0 []"
    by simp
  also have "\<dots> = arg_loop ([a0] @ fs @ (''-o'' # f # gs)) (length [a0] + length fs)
       (?c0\<lparr>input_files := input_files ?c0 @ fs\<rparr>) []"
    by (rule arg_loop_files [OF assms(1)])
  also have "\<dots> = arg_loop ((a0 # fs) @ ''-o'' # f # gs) (length (a0 # fs))
       (?c0\<lparr>input_files := fs\<rparr>) []"
    by (simp add: initial_args_def)
  also have "\<dots> = arg_loop ((a0 # fs) @ ''-o'' # f # gs) (length (a0 # fs) + 2)
       (?c0\<lparr>input_files := fs, output_file := Some f\<rparr>) []"
    by (rule arg_loop_o_next)
  also have "\<dots> = arg_loop ((a0 # fs @ [''-o'', f]) @ gs @ []) (length (a0 # fs @ [''-o'', f]))
       (?c0\<lparr>input_files := fs, output_file := Some f\<rparr>) []"
    by simp
  also have "\<dots> = arg_loop ((a0 # fs @ [''-o'', f]) @ gs @ [])
       (length (a0 # fs @ [''-o'', f]) + length gs)
       (?c0\<lparr>input_files := fs, output_file := Some f,
            input_files := input_files (?c0\<lparr>input_files := fs, output_file := Some f\<rparr>) @ gs\<rparr>) []"
    by (rule arg_loop_files [OF assms(2)])
  also have "\<dots> = Inr (?c0\<lparr>input_files := fs @ gs, output_file := Some f\<rparr>, [])"
    by (simp add: arg_loop_end)
  finally show ?thesis
    by (simp add: main_c_def initial_args_def)
qed

lemma main_o_last:
  assumes "list_all plain_file fs"
  shows "main_c (a0 # fs @ [''-o'']) =
     (if fs = [] then Returned_1 [Missing_filename_after ''-o'', No_input_files]
      else Called_compile
        \<lparr>arg0 = a0, output_file = None, input_files = fs, do_assembling = True,
         do_linking = True, word_size = X86_64_WORD_SIZE\<rparr> [Missing_filename_after ''-o''])"
proof -
  let ?argv = "a0 # fs @ [''-o'']"
  let ?c0 = "initial_args ?argv"
  have "arg_loop ?argv 1 ?c0 [] = arg_loop ([a0] @ fs @ [''-o'']) (length [a0]) ?c0 []"
    by simp
  also have "\<dots> = arg_loop ([a0] @ fs @ [''-o'']) (length [a0] + length fs)
       (?c0\<lparr>input_files := input_files ?c0 @ fs\<rparr>) []"
    by (rule arg_loop_files [OF assms(1)])
  also have "\<dots> = arg_loop ((a0 # fs) @ [''-o'']) (length (a0 # fs)) (?c0\<lparr>input_files := fs\<rparr>) []"
    by (simp add: initial_args_def)
  also have "\<dots> = Inr (?c0\<lparr>input_files := fs, output_file := None\<rparr>, [] @ [Missing_filename_after ''-o''])"
    by (rule arg_loop_o_last)
  finally show ?thesis
    by (simp add: main_c_def initial_args_def)
qed

subsection \<open>Statements that keep the switch of their context\<close>

lemma fuel_needed_pos: "0 < fuel_needed s"
  by (induction s) simp_all

lemma statement_skip:
  "whitespace a = whitespace b \<Longrightarrow>
   statement fuel args fn_ident sw cs (st\<lparr>inp := a\<rparr>) = statement fuel args fn_ident sw cs (st\<lparr>inp := b\<rparr>)"
proof (cases fuel)
  case 0
  then show ?thesis by simp
next
  case (Suc n)
  assume w: "whitespace a = whitespace b"
  obtain c s1 where g: "fgetc_char (whitespace b) = (c, s1)"
    by (cases "fgetc_char (whitespace b)")
  show ?thesis
  proof (cases "identifier_c (ungetc c s1)")
    case (Inl e)
    with Suc w g show ?thesis by (simp del: append.simps)
  next
    case (Inr p)
    obtain buffer s2 where "p = (buffer, s2)" by (cases p)
    with Inr Suc w g show ?thesis by (simp del: append.simps)
  qed
qed

lemma stmt_source_head:
  "stmt_ok s \<Longrightarrow>
   \<exists>c t. whitespace (stmt_source s @ x) = c # t \<and> c \<noteq> CHR ''}'' \<and> c \<noteq> EOF_char \<and> \<not> isspace c"
proof (induction s arbitrary: x)
  case Null_stmt
  show ?case by (simp add: lex_defs)
next
  case (Case_stmt ds s)
  show ?case by (simp add: lex_defs)
next
  case (Label_stmt n s)
  then obtain c n' where c: "n = c # n'" "isalpha c"
    by (cases n) auto
  then have "c \<noteq> CHR ''}''" "c \<noteq> EOF_char" "\<not> isspace c"
    by (auto simp: isalpha_def isspace_def EOF_char_def)
  with c show ?case by (simp add: ungetc_def)
next
  case (Block_stmt ss w)
  show ?case by (simp add: lex_defs)
next
  case (Spaced w s)
  then show ?case by (simp add: whitespace_blanks)
qed

lemma statement_null:
  "statement (Suc n) args fn_ident sw cs (st\<lparr>inp := '';'' @ r\<rparr>) = Inr (st\<lparr>inp := r\<rparr>, cs)"
  by (simp add: lex_defs)

lemma statement_block_step:
  "statement (Suc n) args fn_ident sw cs (st\<lparr>inp := ''{'' @ y\<rparr>)
     = block n args fn_ident sw cs (st\<lparr>inp := whitespace y\<rparr>)"
  by (simp add: lex_defs)

lemma statement_case_step:
  assumes "ds \<noteq> []" and "list_all isdigit ds" and "(of_nat (digits_value ds) :: long) \<noteq> EOF_long"
    and "0 \<le> sint sw"
  shows "statement (Suc n) args fn_ident sw (Some vs) (st\<lparr>inp := ''case '' @ ds @ '':'' @ y\<rparr>)
     = statement n args fn_ident sw (Some (vs @ [of_nat (digits_value ds)]))
         (st\<lparr>inp := y, outp := outp st @ [case_label sw (of_nat (digits_value ds))],
             stmt_id := stmt_id st + 1\<rparr>)"
proof -
  obtain i ou k where st: "st = \<lparr>inp = i, outp = ou, stmt_id = k\<rparr>"
    by (cases st)
  from assms(1,2) obtain c ds' where c: "ds = c # ds'" "isdigit c"
    by (cases ds) auto
  then have c': "\<not> isspace c" "c \<noteq> EOF_char" "c \<noteq> CHR 0x27"
    by (auto simp: isdigit_def isspace_def EOF_char_def)
  have d: "delimited ('':'' @ y)"
    by (simp add: delimited_def lex_defs)
  have k: "fgetc_char (whitespace (''case '' @ ds @ '':'' @ y)) = (CHR ''c'', ''ase '' @ ds @ '':'' @ y)"
    "identifier_c (ungetc (CHR ''c'') (''ase '' @ ds @ '':'' @ y)) = Inr (''case'', '' '' @ ds @ '':'' @ y)"
    by (simp_all add: lex_defs)
  have w: "whitespace ('' '' @ ds @ '':'' @ y) = ds @ '':'' @ y"
    using c c' by (simp add: isspace_def ungetc_def)
  have n: "number (ds @ '':'' @ y) = (of_nat (digits_value ds), '':'' @ y)"
    by (rule number_digits [OF assms(1,2) d])
  have g: "fgetc_char (ds @ '':'' @ y) = (c, ds' @ '':'' @ y)"
    "ungetc c (ds' @ '':'' @ y) = ds @ '':'' @ y"
    using c c' unget_token [of c] by simp_all
  have h: "stmt_case_head args sw (Some vs) \<lparr>inp = ds @ '':'' @ y, outp = ou, stmt_id = k\<rparr>
     = Inr (\<lparr>inp = y, outp = ou @ [case_label sw (of_nat (digits_value ds))], stmt_id = k + 1\<rparr>,
            Some (vs @ [of_nat (digits_value ds)]))"
    using assms(3,4) g n c c'
    by (simp add: stmt_case_head_def list_push_def assert_char_def emit_def EOF_char_def isspace_def
        ungetc_def)
  show ?thesis
    using k w h by (simp add: st isalpha_def del: append.simps)
qed

lemma statement_other:
  assumes "fgetc_char (whitespace (inp st)) = (c, s1)" and "isalpha c"
    and "identifier_c (ungetc c s1) = Inr (buffer, s2)" and "buffer \<notin> stmt_keywords"
    and "fgetc_char (whitespace s2) = (CHR '':'', s3)"
  shows "statement (Suc n) args fn_ident sw cs st
     = statement n args fn_ident sw cs (emit [''.L.label.'' @ buffer @ '':''] (st\<lparr>inp := s3\<rparr>))"
proof -
  from assms(4) have "buffer \<noteq> ''goto''" "buffer \<noteq> ''return''" "buffer \<noteq> ''if''"
    "buffer \<noteq> ''while''" "buffer \<noteq> ''switch''" "buffer \<noteq> ''case''"
    by (auto simp: stmt_keywords_def)
  with assms(1,2,3,5) isalpha_not_brace [OF assms(2)] show ?thesis
    by (simp del: append.simps)
qed

lemma statement_label_step:
  assumes "nm \<noteq> []" and "isalpha (hd nm)" and "list_all isalnum nm" and "length nm < BUFSIZ"
    and "nm \<notin> stmt_keywords"
  shows "statement (Suc n) args fn_ident sw cs (st\<lparr>inp := nm @ '':'' @ y\<rparr>)
     = statement n args fn_ident sw cs
         (st\<lparr>inp := y, outp := outp st @ [''.L.label.'' @ nm @ '':'']\<rparr>)"
proof -
  from assms(1,2) obtain c nm' where c: "nm = c # nm'" "isalpha c"
    by (cases nm) auto
  then have c': "\<not> isspace c" "c \<noteq> EOF_char" "isalnum c"
    by (auto simp: isalpha_def isalnum_def isspace_def EOF_char_def)
  have d: "delimited ('':'' @ y)"
    by (simp add: delimited_def lex_defs)
  have w: "whitespace (nm @ '':'' @ y) = nm @ '':'' @ y"
    using c c' by (simp add: ungetc_def)
  have g: "fgetc_char (whitespace (inp (st\<lparr>inp := nm @ '':'' @ y\<rparr>))) = (c, nm' @ '':'' @ y)"
    using c c' unget_token [of c] by (simp add: ungetc_def)
  have u: "ungetc c (nm' @ '':'' @ y) = nm @ '':'' @ y"
    using c c' unget_token [of c] by simp
  have "identifier_c (nm @ '':'' @ y) = Inr (nm, '':'' @ y)"
    using identifier_loop_name [OF assms(3) _ d, of "[]"] assms(1,2,4) w
    by (simp add: identifier_c_def)
  then have i: "identifier_c (ungetc c (nm' @ '':'' @ y)) = Inr (nm, '':'' @ y)"
    unfolding u .
  have f: "fgetc_char (whitespace ('':'' @ y)) = (CHR '':'', y)"
    by (simp add: lex_defs)
  show ?thesis
    by (subst statement_other [OF g c(2) i assms(5) f]) (simp add: emit_def)
qed

lemma block_end:
  "block (Suc n) args fn_ident sw cs (st\<lparr>inp := ''}'' @ r\<rparr>) = Inr (st\<lparr>inp := r\<rparr>, cs)"
  by (simp add: lex_defs)

lemma block_step:
  assumes "c \<noteq> CHR ''}''" and "c \<noteq> EOF_char"
  shows "block (Suc n) args fn_ident sw cs (st\<lparr>inp := c # t\<rparr>)
     = andthen (statement n args fn_ident sw cs (st\<lparr>inp := c # t\<rparr>))
         (\<lambda>(st1, cs1). block n args fn_ident sw cs1 (st1\<lparr>inp := whitespace (inp st1)\<rparr>))"
  using assms unget_token [of c t] by simp

lemma block_accepts:
  assumes "\<And>s fuel st vs r. s \<in> set ss \<Longrightarrow> stmt_ok s \<Longrightarrow> fuel_needed s \<le> fuel \<Longrightarrow>
      statement fuel args fn_ident sw (Some vs) (st\<lparr>inp := stmt_source s @ r\<rparr>)
        = Inr (accepted st sw vs s r)"
    and "list_all stmt_ok ss" and "blanks w"
    and "Suc (sum_list (map (\<lambda>s. Suc (fuel_needed s)) ss)) \<le> fuel"
  shows "block fuel args fn_ident sw (Some vs)
           (st\<lparr>inp := whitespace (concat (map stmt_source ss) @ w @ ''}'' @ r)\<rparr>)
         = Inr (accepted st sw vs (Block_stmt ss w) r)"
  using assms
proof (induction ss arbitrary: fuel st vs)
  case Nil
  then obtain n where "fuel = Suc n"
    by (cases fuel) auto
  moreover have "whitespace (w @ ''}'' @ r) = ''}'' @ r"
    using Nil.prems(3) by (simp add: whitespace_blanks lex_defs)
  ultimately show ?case
    using block_end [where n = n and args = args and fn_ident = fn_ident and sw = sw
        and cs = "Some vs" and st = st and r = r]
    by (cases st) (simp add: accepted_def)
next
  case (Cons s ss)
  obtain i ou k where st: "st = \<lparr>inp = i, outp = ou, stmt_id = k\<rparr>"
    by (cases st)
  from Cons.prems(4) obtain n where n: "fuel = Suc n" "fuel_needed s \<le> n"
    "Suc (sum_list (map (\<lambda>s. Suc (fuel_needed s)) ss)) \<le> n"
    by (cases fuel) auto
  from Cons.prems(2) have ok: "stmt_ok s" "list_all stmt_ok ss"
    by simp_all
  let ?rest = "concat (map stmt_source ss) @ w @ ''}'' @ r"
  from stmt_source_head [OF ok(1), of ?rest] obtain c t where
    c: "whitespace (stmt_source s @ ?rest) = c # t" "c \<noteq> CHR ''}''" "c \<noteq> EOF_char" "\<not> isspace c"
    by blast
  then have ww: "whitespace (c # t) = whitespace (stmt_source s @ ?rest)"
    by (simp add: ungetc_def)
  have s1: "statement n args fn_ident sw (Some vs) (st\<lparr>inp := c # t\<rparr>)
      = Inr (accepted st sw vs s ?rest)"
    using statement_skip [OF ww, where fuel = n and args = args and fn_ident = fn_ident and sw = sw
        and cs = "Some vs" and st = st]
      Cons.prems(1) [where s = s and fuel = n and st = st and vs = vs and r = ?rest] ok(1) n(2)
    by simp
  have s2: "block n args fn_ident sw (Some (vs @ case_values s))
        ((fst (accepted st sw vs s [])) \<lparr>inp := whitespace ?rest\<rparr>)
      = Inr (accepted (fst (accepted st sw vs s [])) sw (vs @ case_values s) (Block_stmt ss w) r)"
    using Cons.IH [OF _ ok(2) Cons.prems(3) n(3)] Cons.prems(1) by simp
  show ?case
    using c s1 s2 block_step [OF c(2,3), where n = n and args = args and fn_ident = fn_ident and sw = sw
        and cs = "Some vs" and st = st and t = t]
    by (simp add: n st accepted_def del: whitespace.simps)
qed

lemma statement_accepts:
  assumes "stmt_ok s" and "0 \<le> sint sw" and "fuel_needed s \<le> fuel"
  shows "statement fuel args fn_ident sw (Some vs) (st\<lparr>inp := stmt_source s @ r\<rparr>)
           = Inr (accepted st sw vs s r)"
  using assms(1,3)
proof (induction s arbitrary: fuel st vs r)
  case Null_stmt
  then obtain n where "fuel = Suc n"
    by (cases fuel) auto
  then show ?case
    using statement_null [where n = n and args = args and fn_ident = fn_ident and sw = sw
        and cs = "Some vs" and st = st and r = r]
    by (cases st) (simp add: accepted_def)
next
  case (Case_stmt ds s)
  then obtain n where n: "fuel = Suc n" "fuel_needed s \<le> n"
    by (cases fuel) auto
  obtain i ou k where st: "st = \<lparr>inp = i, outp = ou, stmt_id = k\<rparr>"
    by (cases st)
  from Case_stmt.prems(1) have ok: "ds \<noteq> []" "list_all isdigit ds"
    "(of_nat (digits_value ds) :: long) \<noteq> EOF_long" "stmt_ok s"
    by simp_all
  show ?case
    using statement_case_step [OF ok(1-3) assms(2), where n = n and args = args
        and fn_ident = fn_ident and vs = vs and st = st and y = "stmt_source s @ r"]
      Case_stmt.IH [OF ok(4) n(2), where vs = "vs @ [of_nat (digits_value ds)]" and r = r
        and st = "\<lparr>inp = [], outp = ou @ [case_label sw (of_nat (digits_value ds))],
                   stmt_id = k + 1\<rparr>"]
    by (simp add: n st accepted_def add.assoc)
next
  case (Label_stmt nm s)
  then obtain n where n: "fuel = Suc n" "fuel_needed s \<le> n"
    by (cases fuel) auto
  obtain i ou k where st: "st = \<lparr>inp = i, outp = ou, stmt_id = k\<rparr>"
    by (cases st)
  from Label_stmt.prems(1) have ok: "nm \<noteq> []" "isalpha (hd nm)" "list_all isalnum nm"
    "length nm < BUFSIZ" "nm \<notin> stmt_keywords" "stmt_ok s"
    by simp_all
  show ?case
    using statement_label_step [OF ok(1-5), where n = n and args = args and fn_ident = fn_ident
        and sw = sw and cs = "Some vs" and st = st and y = "stmt_source s @ r"]
      Label_stmt.IH [OF ok(6) n(2), where vs = vs and r = r
        and st = "\<lparr>inp = [], outp = ou @ [''.L.label.'' @ nm @ '':''], stmt_id = k\<rparr>"]
    by (simp add: n st accepted_def)
next
  case (Block_stmt ss w)
  then obtain n where n: "fuel = Suc n" "Suc (sum_list (map (\<lambda>s. Suc (fuel_needed s)) ss)) \<le> n"
    by (cases fuel) auto
  from Block_stmt.prems(1) have ok: "list_all stmt_ok ss" "blanks w"
    by simp_all
  have "block n args fn_ident sw (Some vs)
           (st\<lparr>inp := whitespace (concat (map stmt_source ss) @ w @ ''}'' @ r)\<rparr>)
         = Inr (accepted st sw vs (Block_stmt ss w) r)"
    using Block_stmt.IH by (intro block_accepts [OF _ ok n(2)]) blast
  then show ?case
    using statement_block_step [where n = n and args = args and fn_ident = fn_ident and sw = sw
        and cs = "Some vs" and st = st and y = "concat (map stmt_source ss) @ w @ ''}'' @ r"]
    by (simp add: n)
next
  case (Spaced w s)
  then have ok: "blanks w" "stmt_ok s" "fuel_needed s \<le> fuel"
    by simp_all
  have "whitespace (w @ stmt_source s @ r) = whitespace (stmt_source s @ r)"
    using ok(1) by (rule whitespace_blanks)
  from statement_skip [OF this, where fuel = fuel and args = args and fn_ident = fn_ident
      and sw = sw and cs = "Some vs" and st = st]
    Spaced.IH [OF ok(2,3), where vs = vs and st = st and r = r]
  show ?case
    by (simp add: accepted_def)
qed

lemma switch_accepts:
  assumes "stmt_ok s" and "0 \<le> sint (stmt_id st)" and "fuel_needed s \<le> fuel"
  shows "statement (Suc fuel) args fn_ident sw cs (st\<lparr>inp := ''switch 1 '' @ stmt_source s @ r\<rparr>)
     = Inr (st\<lparr>inp := r,
               outp := outp st
                 @ [''  mov $1, %rax'', ''  jmp .L.cmp.'' @ fmt_ld (stmt_id st),
                    ''.L.stmts.'' @ fmt_ld (stmt_id st) @ '':'']
                 @ label_lines (stmt_id st) s
                 @ switch_tail (stmt_id st) (case_values s),
               stmt_id := stmt_id st + 1 + of_nat (length (case_values s))\<rparr>, cs)"
proof -
  obtain i ou k where st: "st = \<lparr>inp = i, outp = ou, stmt_id = k\<rparr>"
    by (cases st)
  let ?st2 = "\<lparr>inp = [], outp = ou @ [''  mov $1, %rax'', ''  jmp .L.cmp.'' @ fmt_ld k,
                    ''.L.stmts.'' @ fmt_ld k @ '':''], stmt_id = k + 1\<rparr>"
  have f: "fmt_lu 1 = ''1''"
    by (simp add: fmt_defs)
  have w: "whitespace ('' '' @ stmt_source s @ r) = whitespace (stmt_source s @ r)"
    by (simp add: isspace_def EOF_char_def)
  have h: "stmt_switch_head args \<lparr>inp = ''1 '' @ stmt_source s @ r, outp = ou, stmt_id = k\<rparr>
      = Inr (k, ?st2\<lparr>inp := '' '' @ stmt_source s @ r\<rparr>)"
    by (simp add: stmt_switch_head_def expression_def load_value_def lex_defs f)
  have b: "statement fuel args fn_ident k (Some []) (?st2\<lparr>inp := '' '' @ stmt_source s @ r\<rparr>)
      = Inr (accepted ?st2 k [] s r)"
    using statement_skip [OF w, where fuel = fuel and args = args and fn_ident = fn_ident
        and sw = k and cs = "Some []" and st = ?st2]
      statement_accepts [OF assms(1) _ assms(3), where sw = k and args = args
        and fn_ident = fn_ident and vs = "[]" and st = ?st2 and r = r] assms(2)
    by (simp add: st)
  have k: "fgetc_char (whitespace (''switch 1 '' @ stmt_source s @ r))
      = (CHR ''s'', ''witch 1 '' @ stmt_source s @ r)"
    "identifier_c (ungetc (CHR ''s'') (''witch 1 '' @ stmt_source s @ r))
      = Inr (''switch'', '' 1 '' @ stmt_source s @ r)"
    "whitespace ('' 1 '' @ stmt_source s @ r) = ''1 '' @ stmt_source s @ r"
    by (simp_all add: lex_defs)
  show ?thesis
    using k h b
    by (simp add: st isalpha_def accepted_def emit_def add.assoc del: append_Cons whitespace.simps)
qed

section \<open>Claim C1: the code of a \<open>while\<close> statement\<close>

text \<open>
  Claim C1 says that a \<open>while\<close> statement emits the label \<open>.L.start.<id>:\<close> first and the code
  of the condition after it, so that the condition is evaluated again on every iteration.
  \<open>statement\<close> calls \<open>expression\<close> before it prints the label: for \<open>while(1);\<close> the load of the
  condition stands before \<open>.L.start.0:\<close>, and the jump back to that label skips it.
\<close>

theorem while_condition_precedes_start_label:
  "statement (Suc (Suc n)) args fn_ident switch_id cs \<lparr>inp = ''while(1);'', outp = [], stmt_id = 0\<rparr>
   = Inr (\<lparr>inp = [],
           outp = [''  mov $1, %rax'', ''.L.start.0:'', ''  cmp $0, %rax'', ''  je .L.end.0'',
                   ''  jmp .L.start.0'', ''.L.end.0:''],
           stmt_id = 1\<rparr>, cs)"
  by (simp add: lex_defs fmt_defs stmt_defs)

section \<open>Claim C2: case labels and the dispatch table\<close>

text \<open>
  Claim C2 says that the jump target of every entry of a dispatch table is, as a string, a
  label emitted in the body of the switch. The label is printed with \<open>%ld\<close>, the target with
  \<open>%lu\<close>: for the case value 9223372036854775808, which the number reader wraps to the least
  \<open>long\<close>, the label is \<open>.L.case.0.-9223372036854775808:\<close> and the target is
  \<open>.L.case.0.9223372036854775808\<close>.
\<close>

theorem case_label_differs_from_dispatch_target:
  "statement (Suc (Suc (Suc (Suc (Suc n))))) args fn_ident switch_id cs
     \<lparr>inp = ''switch 1 { case 9223372036854775808: ; }'', outp = [], stmt_id = 0\<rparr>
   = Inr (\<lparr>inp = [],
           outp = [''  mov $1, %rax'', ''  jmp .L.cmp.0'', ''.L.stmts.0:'',
                   ''.L.case.0.-9223372036854775808:'', ''  jmp .L.end.0'', ''.L.cmp.0:'',
                   ''  cmp $-9223372036854775808, %rax'', ''  je .L.case.0.9223372036854775808'',
                   ''.L.end.0:''],
           stmt_id = 2\<rparr>, cs)"
  by (simp add: lex_defs fmt_defs stmt_defs)

text \<open>
  For a switch id and a case value that are not negative as a \<open>long\<close>, the two conversions
  print the same digits, and the target of the entry is the label of the case.
\<close>

lemma fmt_lu_eq_fmt_ld:
  assumes "0 \<le> sint v"
  shows "fmt_lu v = fmt_ld v"
proof -
  have "sint v < 2 ^ 64"
    using sint_lt [of v] by simp
  with assms have "uint v = sint v"
    by (simp add: uint_sint take_bit_int_eq_self)
  then have "unat v = nat (sint v)"
    by (simp add: unat_eq_nat_uint)
  with assms show ?thesis
    by (simp add: fmt_lu_def fmt_ld_def dec_int_def)
qed

lemma dispatch_target_is_case_label:
  assumes "0 \<le> sint sid" and "0 \<le> sint v"
  shows "dispatch_entry sid v
    = [''  cmp $'' @ fmt_ld v @ '', %rax'', ''  je '' @ butlast (case_label sid v)]"
  using assms by (simp add: dispatch_entry_def case_label_def fmt_lu_eq_fmt_ld butlast_append)

section \<open>Claim C3: uniqueness of labels\<close>


section \<open>Claim C4: packing of character literals\<close>

text \<open>
  Claim C4 says that a literal of 1 to 8 plain characters is packed with the i-th character
  in bits i*8 to i*8+7. The shift \<open>c << (i * 8)\<close> is computed in the 32 bits of \<open>int\<close>: with
  a fifth character the shift count is 32, which C leaves undefined, and no character can
  reach bits 32 to 63 by it. Four characters are packed as the claim says
  (\<open>four_characters_packed\<close>).
\<close>

theorem five_characters_shift_out_of_int:
  "character (initial_args argv) (''abcde'' @ CHR 0x27 # r) = Inl Undefined_shift"
  by (simp add: character_def word_size_initial_args eval_nat_numeral lex_defs shl_char_def escape_def)

lemma four_characters_packed:
  "character (initial_args argv) (''abcd'' @ CHR 0x27 # r) = Inr (0x64636261, r)"
  by (simp add: character_def word_size_initial_args eval_nat_numeral lex_defs shl_char_def escape_def)

section \<open>Claim C5: the escape \<open>**\<close>\<close>

text \<open>
  Claim C5 says that \<open>**\<close> decodes to one byte \<open>*\<close> and that a closing quote after a decoded
  escape ends the literal, so that the literal \<open>**\<close> is 0x2A. The decoded \<open>*\<close> stays in \<open>c\<close>,
  and the next iteration takes it for the start of another escape: the closing quote is
  read as the escape selector and packed as a byte, and the reader goes on past the
  literal. For the input \<open>**'; '\<close> it returns the four bytes \<open>*\<close>, \<open>'\<close>, \<open>;\<close> and a
  blank. After another escape the quote closes the literal (\<open>newline_escape_closed\<close>).
\<close>

theorem star_escape_swallows_closing_quote:
  "character (initial_args argv) (''**'' @ CHR 0x27 # ''; '' @ CHR 0x27 # r) = Inr (0x203B272A, r)"
  by (simp add: character_def word_size_initial_args eval_nat_numeral lex_defs shl_char_def escape_def)

lemma newline_escape_closed:
  "character (initial_args argv) (''*n'' @ CHR 0x27 # r) = Inr (0x0A, r)"
  by (simp add: character_def word_size_initial_args eval_nat_numeral lex_defs shl_char_def escape_def)

section \<open>Claim C6: the size of a vector and its initializers\<close>

text \<open>
  Claim C6. Take a vector declaration, read from behind its \<open>[\<close>: white space, a size that
  is absent or a run of digits, white space, \<open>]\<close>. If a non-empty list of ivals follows and
  then \<open>;\<close>, the declaration is accepted and what is written is the header and one \<open>.long\<close>
  line for each ival, whatever the size is, and no \<open>.zero\<close>. If \<open>;\<close> follows, after white
  space, the declaration is accepted and what is written is the header and the line
  \<open>.zero <word_size * size>\<close> if that product is not 0, the header alone if it is (so when
  the size is absent or 0). And on every input that \<open>vector\<close> accepts, the lines after
  the header are \<open>.long\<close> lines only, or one \<open>.zero\<close> line, or none.
\<close>

theorem vector_size_and_initializers:
  assumes "blanks a" and "blanks b" and "blanks w" and "size_ok sz"
  shows
   "(items \<noteq> [] \<and> (\<forall>i\<in>set items. initializer_ok args i) \<longrightarrow>
       vector args ident (st\<lparr>inp := size_source a sz b @ initializer_source items @ CHR '';'' # r\<rparr>)
         = Inr (st\<lparr>inp := r, outp := outp st @ data_header args ident @ long_lines args items\<rparr>))
    \<and> vector args ident (st\<lparr>inp := size_source a sz b @ w @ CHR '';'' # r\<rparr>)
         = Inr (st\<lparr>inp := r, outp := outp st @ data_header args ident @
                  (if scast (word_size args) * size_value sz \<noteq> 0
                   then [''  .zero '' @ fmt_ld (scast (word_size args) * size_value sz)]
                   else [])\<rparr>)
    \<and> (\<forall>st0 st'. vector args ident st0 = Inr st' \<longrightarrow>
          (\<exists>L. outp st' = outp st0 @ data_header args ident @ L
             \<and> (L = [] \<or> (\<exists>z. L = [''  .zero '' @ z])
                  \<or> (\<forall>l\<in>set L. \<exists>x. l = ''  .long '' @ x))))"
  using vector_list [OF assms(1,2,4)] vector_no_list [OF assms] vector_lines by blast

text \<open>The declarations \<open>v[3] 1, 2, 3;\<close>, \<open>z[3];\<close> and \<open>e[];\<close>, with the word size 8.\<close>

theorem vector_size_and_initializers_witness:
  "vector (initial_args []) ''v'' \<lparr>inp = ''3] 1, 2, 3;'', outp = [], stmt_id = 0\<rparr>
     = Inr \<lparr>inp = [], outp = [''.data'', ''.type v, @object'', ''.align 8'', ''v:'',
                               ''  .long 1'', ''  .long 2'', ''  .long 3''], stmt_id = 0\<rparr>
   \<and> vector (initial_args []) ''z'' \<lparr>inp = ''3];'', outp = [], stmt_id = 0\<rparr>
     = Inr \<lparr>inp = [], outp = [''.data'', ''.type z, @object'', ''.align 8'', ''z:'', ''  .zero 24''],
            stmt_id = 0\<rparr>
   \<and> vector (initial_args []) ''e'' \<lparr>inp = ''];'', outp = [], stmt_id = 0\<rparr>
     = Inr \<lparr>inp = [], outp = [''.data'', ''.type e, @object'', ''.align 8'', ''e:''], stmt_id = 0\<rparr>"
proof -
  let ?st = "\<lparr>inp = [], outp = [], stmt_id = 0\<rparr>"
  let ?items = "[('' '', Number ''1'', []), ('' '', Number ''2'', []), ('' '', Number ''3'', [])]"
  have b: "blanks []" "blanks '' ''"
    by (simp_all add: blanks_def isspace_def)
  have s: "size_ok (Some ''3'')" "size_ok None"
    by (simp_all add: size_ok_def digits_value_def lex_defs)
  have v: "size_value (Some ''3'') = 3" "size_value None = 0"
    by (simp_all add: size_value_def digits_value_def)
  have o: "ival_operand (initial_args []) (Number ''1'') = Some ''1''"
    "ival_operand (initial_args []) (Number ''2'') = Some ''2''"
    "ival_operand (initial_args []) (Number ''3'') = Some ''3''"
    by (simp_all add: lex_defs digits_value_def fmt_defs)
  have l: "?items \<noteq> [] \<and> (\<forall>i\<in>set ?items. initializer_ok (initial_args []) i)"
    using b o by (simp add: initializer_ok_def)
  note t3 = vector_size_and_initializers [OF b(1) b(1) b(1) s(1), where args = "initial_args []"
      and st = ?st and r = "[]"]
  note t0 = vector_size_and_initializers [OF b(1) b(1) b(1) s(2), where args = "initial_args []"
      and st = ?st and r = "[]"]
  have h: "data_header (initial_args []) ident
      = [''.data'', ''.type '' @ ident @ '', @object'', ''.align 8'', ident @ '':'']" for ident
    by (simp add: data_header_def initial_args_def X86_64_WORD_SIZE_def fmt_defs)
  have z: "scast (word_size (initial_args [])) * (3 :: long) = 24" "fmt_ld 24 = ''24''"
    by (simp_all add: initial_args_def X86_64_WORD_SIZE_def fmt_defs)
  from t3 [THEN conjunct1, THEN mp, OF l, of "''v''"]
  have 1: "vector (initial_args []) ''v'' \<lparr>inp = ''3] 1, 2, 3;'', outp = [], stmt_id = 0\<rparr>
     = Inr \<lparr>inp = [], outp = [''.data'', ''.type v, @object'', ''.align 8'', ''v:'',
                               ''  .long 1'', ''  .long 2'', ''  .long 3''], stmt_id = 0\<rparr>"
    by (simp add: size_source_def long_lines_def o h del: ival_operand.simps)
  from t3 [THEN conjunct2, THEN conjunct1, of "''z''"]
  have 2: "vector (initial_args []) ''z'' \<lparr>inp = ''3];'', outp = [], stmt_id = 0\<rparr>
     = Inr \<lparr>inp = [], outp = [''.data'', ''.type z, @object'', ''.align 8'', ''z:'', ''  .zero 24''],
            stmt_id = 0\<rparr>"
    by (simp add: size_source_def v h z)
  from t0 [THEN conjunct2, THEN conjunct1, of "''e''"]
  have 3: "vector (initial_args []) ''e'' \<lparr>inp = ''];'', outp = [], stmt_id = 0\<rparr>
     = Inr \<lparr>inp = [], outp = [''.data'', ''.type e, @object'', ''.align 8'', ''e:''], stmt_id = 0\<rparr>"
    by (simp add: size_source_def v h)
  from 1 2 3 show ?thesis by simp
qed

section \<open>Claim C7: one \<open>.long\<close> for each ival\<close>

text \<open>
  Claim C7. An ival of each of the three kinds (a name, a character literal, a decimal
  number), followed by the end of the input or by a byte that is no letter or digit, is
  accepted, and what is written for it is the one line \<open>.long <operand>\<close>, whatever the word
  size of the arguments is; the input behind it is left. And whenever \<open>ival\<close> accepts its
  input, it has written exactly one line, a \<open>.long\<close> directive.
\<close>

theorem ival_emits_one_long:
  "(ival_operand args t = Some x \<and> delimited r \<longrightarrow>
      ival args (st\<lparr>inp := ival_source t @ r\<rparr>)
        = Inr (st\<lparr>inp := r, outp := outp st @ [''  .long '' @ x]\<rparr>))
   \<and> (\<forall>st0 st'. ival args st0 = Inr st' \<longrightarrow> (\<exists>v. outp st' = outp st0 @ [''  .long '' @ v]))"
  using ival_token ival_emits by blast

text \<open>The ivals \<open>x\<close>, \<open>'ab'\<close> and \<open>42\<close>, with the word size 8.\<close>

theorem ival_emits_one_long_witness:
  "ival (initial_args []) \<lparr>inp = ''x, 1;'', outp = [], stmt_id = 0\<rparr>
     = Inr \<lparr>inp = '', 1;'', outp = [''  .long x''], stmt_id = 0\<rparr>
   \<and> ival (initial_args []) \<lparr>inp = CHR 0x27 # ''ab'' @ CHR 0x27 # '';'', outp = [], stmt_id = 0\<rparr>
     = Inr \<lparr>inp = '';'', outp = [''  .long 25185''], stmt_id = 0\<rparr>
   \<and> ival (initial_args []) \<lparr>inp = ''42;'', outp = [], stmt_id = 0\<rparr>
     = Inr \<lparr>inp = '';'', outp = [''  .long 42''], stmt_id = 0\<rparr>"
proof -
  let ?st = "\<lparr>inp = [], outp = [], stmt_id = 0\<rparr>"
  have d: "delimited '', 1;''" "delimited '';''"
    by (simp_all add: delimited_def lex_defs)
  have n: "ival_operand (initial_args []) (Name ''x'') = Some ''x''"
    by (simp add: lex_defs)
  have "character (initial_args []) (''ab'' @ [CHR 0x27]) = Inr (0x6261, [])"
    by (simp add: character_def word_size_initial_args eval_nat_numeral lex_defs shl_char_def)
  moreover have "fmt_lu 0x6261 = ''25185''"
    by (simp add: fmt_defs)
  ultimately have c: "ival_operand (initial_args []) (Char_literal (''ab'' @ [CHR 0x27])) = Some ''25185''"
    by (simp add: EOF_long_def)
  have i: "ival_operand (initial_args []) (Number ''42'') = Some ''42''"
    by (simp add: lex_defs digits_value_def fmt_defs)
  from ival_emits_one_long [THEN conjunct1, THEN mp, OF conjI, OF n d(1), of ?st]
    ival_emits_one_long [THEN conjunct1, THEN mp, OF conjI, OF c d(2), of ?st]
    ival_emits_one_long [THEN conjunct1, THEN mp, OF conjI, OF i d(2), of ?st]
  show ?thesis by simp
qed

section \<open>Claim C8: the number reader\<close>

text \<open>
  Claim C8 says that the reader returns the end-of-file sentinel if and only if no digits
  were read and the end of the file was hit. The sentinel is the value \<open>-1\<close> of the same
  \<open>long\<close> that holds the number, and the value wraps: the digit run 18446744073709551615 is
  read to its end and gives the sentinel.
\<close>

theorem number_sentinel_after_digits:
  "number ''18446744073709551615'' = (EOF_long, [])
   \<and> takeWhile isdigit (whitespace ''18446744073709551615'') = ''18446744073709551615''"
  by (simp add: lex_defs)

text \<open>
  Claim C8 as amended: on an input without the byte 0xFF, after the white space, the reader
  returns the sentinel (and leaves nothing) when the input is at its end; it returns 0
  and leaves the input as it is when the next byte is no digit; otherwise it returns the
  base-ten value of the digit run modulo \<open>2 ^ 64\<close>, and leaves the input that follows the
  run. (The value of a run can be the sentinel's.)
\<close>

theorem number_reader:
  assumes "EOF_char \<notin> set s"
  shows "(whitespace s = [] \<longrightarrow> number s = (EOF_long, []))
       \<and> (\<forall>c r. whitespace s = c # r \<and> \<not> isdigit c \<longrightarrow> number s = (0, c # r))
       \<and> (\<forall>c r. whitespace s = c # r \<and> isdigit c \<longrightarrow>
            number s = (of_nat (digits_value (takeWhile isdigit (c # r))), dropWhile isdigit (c # r))
            \<and> unat (fst (number s)) = digits_value (takeWhile isdigit (c # r)) mod 2 ^ 64)"
proof -
  from assms have w: "EOF_char \<notin> set (whitespace s)"
    using set_whitespace by blast
  have "number s = number_loop 0 (of_nat 0) (whitespace s)"
    by (simp add: number_def)
  with number_loop_digits [OF w, of 0 0] have
    n: "number s = (if whitespace s = [] then EOF_long
                    else of_nat (digits_value (takeWhile isdigit (whitespace s))),
                    dropWhile isdigit (whitespace s))"
    by (simp add: digits_value_def)
  show ?thesis
    by (auto simp: n digits_value_def unat_of_nat)
qed

text \<open>The three cases, on the empty input, on \<open>x\<close> and on \<open> 12;\<close>.\<close>

theorem number_reader_witness:
  "number [] = (EOF_long, []) \<and> number ''x'' = (0, ''x'')
   \<and> number '' 12;'' = (12, '';'') \<and> unat (fst (number '' 12;'')) = 12"
proof -
  have a: "EOF_char \<notin> set []" "EOF_char \<notin> set ''x''" "EOF_char \<notin> set '' 12;''"
    by (simp_all add: EOF_char_def)
  show ?thesis
    using number_reader [OF a(1)] number_reader [OF a(2)] number_reader [OF a(3)]
    by (simp add: isspace_def isdigit_def digits_value_def ungetc_def EOF_char_def)
qed

section \<open>Claim C9: \<open>-o\<close> without a file name\<close>

text \<open>
  Claim C9. Take a command line of input files with one \<open>-o\<close> among them. If \<open>-o\<close> is the
  last argument, \<open>main\<close> writes "missing filename after -o" and goes on: it calls
  \<open>compile\<close>, with the null pointer \<open>argv[argc]\<close> as output path, and returns 1 only if
  there is no input file. If an argument follows \<open>-o\<close>, whatever it is, \<open>main\<close> hands it to
  \<open>compile\<close> as the output path, with the input files before and behind it, and writes
  nothing. In the loop of \<open>main\<close> at any argument \<open>-o\<close>, on any command line: if it is the
  last argument the loop ends there without a \<open>return\<close>, and if an argument follows, it
  becomes the output path and the loop goes on behind it.
\<close>

theorem missing_output_filename_not_fatal:
  assumes "list_all plain_file fs" and "list_all plain_file gs"
  shows "main_c (a0 # fs @ [''-o''])
           = (if fs = [] then Returned_1 [Missing_filename_after ''-o'', No_input_files]
              else Called_compile
                     \<lparr>arg0 = a0, output_file = None, input_files = fs, do_assembling = True,
                      do_linking = True, word_size = X86_64_WORD_SIZE\<rparr>
                     [Missing_filename_after ''-o''])
       \<and> main_c (a0 # fs @ ''-o'' # f # gs)
           = (if fs @ gs = [] then Returned_1 [No_input_files]
              else Called_compile
                     \<lparr>arg0 = a0, output_file = Some f, input_files = fs @ gs, do_assembling = True,
                      do_linking = True, word_size = X86_64_WORD_SIZE\<rparr> [])
       \<and> (i < length argv \<and> argv ! i = ''-o'' \<longrightarrow>
            (i + 1 = length argv \<longrightarrow>
               arg_loop argv i cargs err
                 = Inr (cargs\<lparr>output_file := None\<rparr>, err @ [Missing_filename_after ''-o'']))
          \<and> (i + 1 < length argv \<longrightarrow>
               arg_loop argv i cargs err
                 = arg_loop argv (i + 2) (cargs\<lparr>output_file := Some (argv ! (i + 1))\<rparr>) err)
          \<and> (i + 1 = length argv
                \<and> arg_loop argv 1 (initial_args argv) [] = arg_loop argv i cargs err \<longrightarrow>
               main_c argv =
                 (if input_files cargs = []
                  then Returned_1 (err @ [Missing_filename_after ''-o'', No_input_files])
                  else Called_compile (cargs\<lparr>output_file := None\<rparr>)
                         (err @ [Missing_filename_after ''-o'']))))"
proof -
  have last: "arg_loop argv i cargs err
      = Inr (cargs\<lparr>output_file := None\<rparr>, err @ [Missing_filename_after ''-o''])"
    if "i + 1 = length argv" "argv ! i = ''-o''"
    using that by (simp add: arg_loop.simps [of argv i] arg_loop_end)
  have nxt: "arg_loop argv i cargs err
      = arg_loop argv (i + 2) (cargs\<lparr>output_file := Some (argv ! (i + 1))\<rparr>) err"
    if "i + 1 < length argv" "argv ! i = ''-o''"
    using that by (simp add: arg_loop.simps [of argv i])
  from last nxt have "i < length argv \<and> argv ! i = ''-o'' \<longrightarrow>
            (i + 1 = length argv \<longrightarrow>
               arg_loop argv i cargs err
                 = Inr (cargs\<lparr>output_file := None\<rparr>, err @ [Missing_filename_after ''-o'']))
          \<and> (i + 1 < length argv \<longrightarrow>
               arg_loop argv i cargs err
                 = arg_loop argv (i + 2) (cargs\<lparr>output_file := Some (argv ! (i + 1))\<rparr>) err)
          \<and> (i + 1 = length argv
                \<and> arg_loop argv 1 (initial_args argv) [] = arg_loop argv i cargs err \<longrightarrow>
               main_c argv =
                 (if input_files cargs = []
                  then Returned_1 (err @ [Missing_filename_after ''-o'', No_input_files])
                  else Called_compile (cargs\<lparr>output_file := None\<rparr>)
                         (err @ [Missing_filename_after ''-o''])))"
    by (auto simp: main_c_def)
  with main_o_last [OF assms(1)] main_o_next [OF assms] show ?thesis
    by blast
qed

text \<open>The command lines \<open>b x.b -o\<close> and \<open>b x.b -o x.s y.b\<close>.\<close>

theorem missing_output_filename_not_fatal_witness:
  "main_c [''b'', ''x.b'', ''-o'']
     = Called_compile
         \<lparr>arg0 = ''b'', output_file = None, input_files = [''x.b''], do_assembling = True,
          do_linking = True, word_size = 8\<rparr>
         [Missing_filename_after ''-o'']
   \<and> main_c [''b'', ''x.b'', ''-o'', ''x.s'', ''y.b'']
     = Called_compile
         \<lparr>arg0 = ''b'', output_file = Some ''x.s'', input_files = [''x.b'', ''y.b''],
          do_assembling = True, do_linking = True, word_size = 8\<rparr> []"
proof -
  have p: "list_all plain_file [''x.b'']" "list_all plain_file [''y.b'']"
    by (simp_all add: plain_file_def)
  note t = missing_output_filename_not_fatal [OF p, where ?a0.0 = "''b''" and f = "''x.s''"]
  from t [THEN conjunct1] t [THEN conjunct2, THEN conjunct1] show ?thesis
    by (simp add: X86_64_WORD_SIZE_def)
qed

section \<open>Claim C10: \<open>case\<close> and the enclosing switch\<close>

text \<open>
  Claim C10. A \<open>case\<close> read with a negative switch id is the fatal error "case outside of
  switch". The result of an \<open>if\<close> or \<open>while\<close> statement is what it is with the switch id
  \<open>-1\<close> and no case list, but for the caller's list, which is returned untouched: the
  branches and the body never see the enclosing switch. So a \<open>case\<close> that is the
  then-branch, the else-branch or the body of a \<open>while\<close> is rejected whatever the context.
  With a switch id that is not negative, every statement built from \<open>;\<close>, \<open>case\<close> labels,
  labels and blocks, nested in any way, is accepted: each of its case values joins the
  list of that switch, in source order, and each of its labels is written. As the body of
  a \<open>switch\<close> whose statement id is not negative, such a statement gives the dispatch table
  of all its case values.
\<close>

theorem case_needs_switch_context:
  "(stmt_keyword (inp st) = Some ''case'' \<and> sint switch_id < 0 \<longrightarrow>
      statement (Suc n) args fn_ident switch_id cs st = Inl Case_outside_switch)
   \<and> (stmt_keyword (inp st) = Some ''if'' \<or> stmt_keyword (inp st) = Some ''while'' \<longrightarrow>
      statement (Suc n) args fn_ident switch_id cs st
        = with_cases cs (statement (Suc n) args fn_ident (- 1) None st))
   \<and> statement (Suc (Suc n)) args fn_ident switch_id cs (st\<lparr>inp := ''if(1)case 7:;'' @ r\<rparr>)
        = Inl Case_outside_switch
   \<and> statement (Suc (Suc n)) args fn_ident switch_id cs (st\<lparr>inp := ''if(1);else case 7:;'' @ r\<rparr>)
        = Inl Case_outside_switch
   \<and> statement (Suc (Suc n)) args fn_ident switch_id cs (st\<lparr>inp := ''while(1)case 7:;'' @ r\<rparr>)
        = Inl Case_outside_switch
   \<and> (stmt_ok s \<and> 0 \<le> sint switch_id \<and> fuel_needed s \<le> fuel \<longrightarrow>
        statement fuel args fn_ident switch_id (Some vs) (st\<lparr>inp := stmt_source s @ r\<rparr>)
          = Inr (st\<lparr>inp := r, outp := outp st @ label_lines switch_id s,
                    stmt_id := stmt_id st + of_nat (length (case_values s))\<rparr>,
                 Some (vs @ case_values s)))
   \<and> (stmt_ok s \<and> 0 \<le> sint (stmt_id st) \<and> fuel_needed s \<le> fuel \<longrightarrow>
        statement (Suc fuel) args fn_ident switch_id cs
            (st\<lparr>inp := ''switch 1 '' @ stmt_source s @ r\<rparr>)
          = Inr (st\<lparr>inp := r,
                    outp := outp st
                      @ [''  mov $1, %rax'', ''  jmp .L.cmp.'' @ fmt_ld (stmt_id st),
                         ''.L.stmts.'' @ fmt_ld (stmt_id st) @ '':'']
                      @ label_lines (stmt_id st) s
                      @ switch_tail (stmt_id st) (case_values s),
                    stmt_id := stmt_id st + 1 + of_nat (length (case_values s))\<rparr>, cs))"
proof (intro conjI impI)
  assume "stmt_keyword (inp st) = Some ''case'' \<and> sint switch_id < 0"
  then show "statement (Suc n) args fn_ident switch_id cs st = Inl Case_outside_switch"
    using case_rejected by blast
next
  assume "stmt_keyword (inp st) = Some ''if'' \<or> stmt_keyword (inp st) = Some ''while''"
  then show "statement (Suc n) args fn_ident switch_id cs st
        = with_cases cs (statement (Suc n) args fn_ident (- 1) None st)"
    using if_context_discarded while_context_discarded by blast
next
  assume "stmt_ok s \<and> 0 \<le> sint switch_id \<and> fuel_needed s \<le> fuel"
  then show "statement fuel args fn_ident switch_id (Some vs) (st\<lparr>inp := stmt_source s @ r\<rparr>)
          = Inr (st\<lparr>inp := r, outp := outp st @ label_lines switch_id s,
                    stmt_id := stmt_id st + of_nat (length (case_values s))\<rparr>,
                 Some (vs @ case_values s))"
    using statement_accepts [of s switch_id fuel] by (simp add: accepted_def)
next
  assume "stmt_ok s \<and> 0 \<le> sint (stmt_id st) \<and> fuel_needed s \<le> fuel"
  then show "statement (Suc fuel) args fn_ident switch_id cs
            (st\<lparr>inp := ''switch 1 '' @ stmt_source s @ r\<rparr>)
          = Inr (st\<lparr>inp := r,
                    outp := outp st
                      @ [''  mov $1, %rax'', ''  jmp .L.cmp.'' @ fmt_ld (stmt_id st),
                         ''.L.stmts.'' @ fmt_ld (stmt_id st) @ '':'']
                      @ label_lines (stmt_id st) s
                      @ switch_tail (stmt_id st) (case_values s),
                    stmt_id := stmt_id st + 1 + of_nat (length (case_values s))\<rparr>, cs)"
    using switch_accepts by blast
qed (fact case_in_if_rejected case_in_else_rejected case_in_while_rejected)+

text \<open>
  A \<open>case\<close> at the top of a function body; a block of the switch 5 with a \<open>case\<close> behind a
  label and one in an inner block; and a \<open>switch\<close> statement with two cases in its block.
\<close>

theorem case_needs_switch_context_witness:
  "statement (Suc 0) (initial_args []) ''f'' (- 1) None \<lparr>inp = ''case 1: ;'', outp = [], stmt_id = 0\<rparr>
     = Inl Case_outside_switch
   \<and> statement 13 (initial_args []) ''f'' 5 (Some [])
        \<lparr>inp = ''{ case 1: ; x: case 2: {case 3:;} }'', outp = [], stmt_id = 6\<rparr>
     = Inr (\<lparr>inp = [], outp = [''.L.case.5.1:'', ''.L.label.x:'', ''.L.case.5.2:'', ''.L.case.5.3:''],
             stmt_id = 9\<rparr>, Some [1, 2, 3])
   \<and> statement (Suc 8) (initial_args []) ''f'' (- 1) None
        \<lparr>inp = ''switch 1 { case 1: ; case 2: ; }'', outp = [], stmt_id = 0\<rparr>
     = Inr (\<lparr>inp = [],
             outp = [''  mov $1, %rax'', ''  jmp .L.cmp.0'', ''.L.stmts.0:'', ''.L.case.0.1:'',
                     ''.L.case.0.2:'', ''  jmp .L.end.0'', ''.L.cmp.0:'', ''  cmp $1, %rax'',
                     ''  je .L.case.0.1'', ''  cmp $2, %rax'', ''  je .L.case.0.2'', ''.L.end.0:''],
             stmt_id = 3\<rparr>, None)"
proof -
  let ?st = "\<lparr>inp = ''case 1: ;'', outp = [], stmt_id = 0\<rparr>"
  let ?six = "\<lparr>inp = [], outp = [], stmt_id = 6 :: long\<rparr>"
  let ?zero = "\<lparr>inp = [], outp = [], stmt_id = 0 :: long\<rparr>"
  let ?b = "Block_stmt [Spaced '' '' (Case_stmt ''1'' (Spaced '' '' Null_stmt)),
                        Spaced '' '' (Label_stmt ''x'' (Spaced '' '' (Case_stmt ''2'' (Spaced '' ''
                          (Block_stmt [Case_stmt ''3'' Null_stmt] [])))))] '' ''"
  let ?s = "Block_stmt [Spaced '' '' (Case_stmt ''1'' (Spaced '' '' Null_stmt)),
                        Spaced '' '' (Case_stmt ''2'' (Spaced '' '' Null_stmt))] '' ''"
  have k: "stmt_keyword (inp ?st) = Some ''case'' \<and> sint (- 1 :: long) < 0"
    by (simp add: stmt_keyword_def lex_defs)
  have d: "digits_value ''1'' = 1" "digits_value ''2'' = 2" "digits_value ''3'' = 3"
    by (simp_all add: digits_value_def)
  have f: "fmt_ld 0 = ''0''" "fmt_ld 1 = ''1''" "fmt_ld 2 = ''2''" "fmt_ld 3 = ''3''" "fmt_ld 5 = ''5''"
    "fmt_lu 0 = ''0''" "fmt_lu 1 = ''1''" "fmt_lu 2 = ''2''"
    by (simp_all add: fmt_defs)
  have okb: "stmt_ok ?b \<and> 0 \<le> sint (5 :: long) \<and> fuel_needed ?b \<le> 13"
    by (simp add: d blanks_def stmt_keywords_def lex_defs)
  have oks: "stmt_ok ?s \<and> 0 \<le> sint (stmt_id ?zero) \<and> fuel_needed ?s \<le> 8"
    by (simp add: d blanks_def lex_defs)
  have a: "statement (Suc 0) (initial_args []) ''f'' (- 1) None ?st = Inl Case_outside_switch"
    by (rule case_needs_switch_context [where st = ?st and switch_id = "- 1" and n = 0
          and args = "initial_args []" and fn_ident = "''f''" and cs = None,
          THEN conjunct1, THEN mp, OF k])
  note b = case_needs_switch_context [where st = ?six and switch_id = 5 and s = ?b and fuel = 13
          and args = "initial_args []" and fn_ident = "''f''" and vs = "[]" and r = "[]",
          THEN conjunct2, THEN conjunct2, THEN conjunct2, THEN conjunct2, THEN conjunct2,
          THEN conjunct1, THEN mp, OF okb]
  note c = case_needs_switch_context [where st = ?zero and switch_id = "- 1" and s = ?s
          and fuel = 8 and args = "initial_args []" and fn_ident = "''f''" and cs = None
          and r = "[]",
          THEN conjunct2, THEN conjunct2, THEN conjunct2, THEN conjunct2, THEN conjunct2,
          THEN conjunct2, THEN mp, OF oks]
  from a b c show ?thesis
    by (simp add: d f case_label_def switch_tail_def dispatch_entry_def)
qed

end
